theory Spec2Isabelle
  imports Main "HOL-Library.Word" "HOL-Library.Sublist"
begin

section \<open>Go values used by schroedinger.go\<close>

text \<open>
  Go's \<open>int\<close> is a 64-bit two's complement integer on the platforms the program targets;
  comparisons are signed (\<open><s\<close>, \<open>\<le>s\<close>) and \<open>++\<close> wraps. A Go \<open>string\<close> is a byte
  sequence, here \<open>string\<close>. A Go \<open>error\<close> is \<open>nil\<close> or a value with a message.
\<close>

type_synonym int64 = "64 word"

type_synonym error = "string option"

text \<open>
  Two ways a goroutine ends the whole process instead of returning: a run-time panic
  (dereferencing the nil \<open>config\<close> pointer) and \<open>log.Fatal\<close>/\<open>log.Fatalf\<close>.
\<close>

datatype abort = Panic string | Fatal string

subsection \<open>The functions of package strings that the program calls\<close>

text \<open>\<open>strings.Contains(s, substr)\<close>.\<close>

fun Contains :: "string \<Rightarrow> string \<Rightarrow> bool" where
  "Contains [] substr = (substr = [])"
| "Contains (c # s) substr = (prefix substr (c # s) \<or> Contains s substr)"

text \<open>
  \<open>strings.Split(s, sep)\<close>; every call in the program passes a separator of one byte
  (\<open>":"\<close>, \<open>"("\<close>, \<open>","\<close>), given here as that byte. The result always has at least one
  field, so the last case of the inner \<open>case\<close> is never taken.
\<close>

fun Split :: "string \<Rightarrow> char \<Rightarrow> string list" where
  "Split [] sep = [[]]"
| "Split (c # s) sep =
     (if c = sep then [] # Split s sep
      else (case Split s sep of f # fs \<Rightarrow> (c # f) # fs | [] \<Rightarrow> [[c]]))"

text \<open>\<open>strings.Trim(s, cutset)\<close>: leading and trailing bytes of the cutset removed.\<close>

definition Trim :: "string \<Rightarrow> string \<Rightarrow> string" where
  "Trim s cutset =
     rev (dropWhile (\<lambda>c. c \<in> set cutset) (rev (dropWhile (\<lambda>c. c \<in> set cutset) s)))"

text \<open>\<open>strings.TrimSuffix(s, suffix)\<close>.\<close>

definition TrimSuffix :: "string \<Rightarrow> string \<Rightarrow> string" where
  "TrimSuffix s suf = (if suffix suf s then take (length s - length suf) s else s)"

section \<open>Data model\<close>

text \<open>
  The structs \<open>Case\<close>, \<open>Test\<close> and \<open>Config\<close>. \<open>Test\<close> and \<open>Case\<close> both have fields
  \<open>Name\<close>, \<open>TrialsDone\<close> and \<open>TrialsAllowed\<close>; so that one selector of each name serves
  both, the record \<open>Test\<close> is written as \<open>Case\<close> plus the fields only \<open>Test\<close> has.
  The struct declaration of \<open>Test\<close> has no field \<open>Pkg\<close>, but \<open>tryPackageTest\<close> reads and
  writes \<open>t.Pkg\<close>; the field is kept, and \<open>getNonRecursivePackageName(t.Pkg)\<close> makes it
  a string. The slices \<open>[]*Case\<close> and \<open>[]*Test\<close> are lists of the structs pointed to.
\<close>

record Case =
  Name :: string
  TrialsDone :: int64
  TrialsAllowed :: int64

record Test = Case +
  AnyFailing :: bool
  Cases :: "Case list"
  Pkg :: string

record Config =
  GlobalTrialsAllowed :: int64
  Tests :: "Test list"

text \<open>
  What the program reads from its platform: \<open>runtime.GOOS\<close> and the package variable
  \<open>goExecutablePath\<close> (set once by \<open>init\<close> from \<open>runtime.GOROOT()\<close>).
  \<open>filepath.Separator\<close> is a backslash on Windows and a slash elsewhere.
\<close>

record env =
  GOOS :: string
  goExecutablePath :: string

definition Separator :: "env \<Rightarrow> char" where
  "Separator E = (if GOOS E = ''windows'' then CHR 0x5C else CHR ''/'')"

definition getCommandPrefix :: "env \<Rightarrow> string list" where
  "getCommandPrefix E =
     (if GOOS E = ''windows'' then [''cmd'', ''/C''] else [''/bin/sh'', ''-c''])"

text \<open>The package variable \<open>commandPrefix\<close>, set once by \<open>init\<close>.\<close>

definition commandPrefix :: "env \<Rightarrow> string list" where
  "commandPrefix E = getCommandPrefix E"

section \<open>Trial budget\<close>

text \<open>\<open>(t *Test) getCase\<close>: the first declared case of that name, or nil.\<close>

fun getCase_loop :: "Case list \<Rightarrow> string \<Rightarrow> Case option" where
  "getCase_loop [] name = None"
| "getCase_loop (c # cs) name = (if Name c = name then Some c else getCase_loop cs name)"

definition getCase :: "Test \<Rightarrow> string \<Rightarrow> Case option" where
  "getCase t name = getCase_loop (Cases t) name"

text \<open>
  \<open>(t *Test) getTrialsAllowed\<close>. The global \<open>config\<close> is a pointer (\<open>var config *Config\<close>),
  \<open>None\<close> while it is nil; reading a field through the nil pointer panics.
\<close>

definition getTrialsAllowed :: "Config option \<Rightarrow> Test \<Rightarrow> abort + int64" where
  "getTrialsAllowed config t =
     (if TrialsAllowed t \<noteq> 0 then Inr (TrialsAllowed t)
      else (case config of
              None \<Rightarrow> Inl (Panic ''invalid memory address or nil pointer dereference'')
            | Some cfg \<Rightarrow> Inr (GlobalTrialsAllowed cfg)))"

definition getNonRecursivePackageName :: "env \<Rightarrow> string \<Rightarrow> string" where
  "getNonRecursivePackageName E s =
     (let out = TrimSuffix s (Separator E # ''...'');
          out = TrimSuffix out ''...''
      in out)"

text \<open>
  \<open>(t *Test) buildTestFromCase\<close>. The fields the composite literal leaves out have their
  zero values; \<open>TrialsAllowed\<close> is set only from the case.
\<close>

definition buildTestFromCase :: "env \<Rightarrow> Test \<Rightarrow> string \<Rightarrow> string + Test" where
  "buildTestFromCase E t caseName =
     (case getCase t caseName of
        None \<Rightarrow> Inl (''no test case found: '' @ Name t @ '' '' @ caseName)
      | Some c \<Rightarrow>
          (let out = \<lparr>Name = getNonRecursivePackageName E (Name t) @ '' -run '' @ Name c,
                      TrialsDone = TrialsDone t,
                      TrialsAllowed = 0,
                      AnyFailing = False, Cases = [], Pkg = []\<rparr>;
               out = (if TrialsAllowed c \<noteq> 0 then out\<lparr>TrialsAllowed := TrialsAllowed c\<rparr>
                      else out)
           in Inr out))"

text \<open>
  The precedence as the specification words it, for a case-scoped target derived from the
  group \<open>g\<close> and its declared case \<open>c\<close>: case override, then group override, then the
  global default.
\<close>

definition resolve_spec :: "Config \<Rightarrow> Test \<Rightarrow> Case \<Rightarrow> int64" where
  "resolve_spec cfg g c =
     (if TrialsAllowed c \<noteq> 0 then TrialsAllowed c
      else if TrialsAllowed g \<noteq> 0 then TrialsAllowed g
      else GlobalTrialsAllowed cfg)"

text \<open>The example of the specification: a group with override 5 and one declared case.\<close>

definition example_group :: "int64 \<Rightarrow> int64 \<Rightarrow> Test" where
  "example_group group_override case_override =
     \<lparr>Name = ''pkg/...'', TrialsDone = 0, TrialsAllowed = group_override,
      AnyFailing = False,
      Cases = [\<lparr>Name = ''TestA'', TrialsDone = 0, TrialsAllowed = case_override\<rparr>],
      Pkg = []\<rparr>"

definition example_config :: "int64 \<Rightarrow> Config" where
  "example_config n = \<lparr>GlobalTrialsAllowed = n, Tests = []\<rparr>"

definition linux :: env where
  "linux = \<lparr>GOOS = ''linux'', goExecutablePath = ''/usr/local/go/bin/go''\<rparr>"

section \<open>Filtering\<close>

text \<open>\<open>parseMatchList\<close>; a nil slice and an empty slice are both the empty list.\<close>

definition parseMatchList :: "string \<Rightarrow> string list" where
  "parseMatchList list =
     (if length list = 0 then []
      else (let ll = Trim list '' '' in Split ll CHR '',''))"

text \<open>
  \<open>testMatchesList\<close>. The blacklist loops return false at the first substring found in
  the target's name or in a declared case's name.
\<close>

fun blacks_cases_loop :: "Case list \<Rightarrow> string \<Rightarrow> bool" where
  "blacks_cases_loop [] m = False"
| "blacks_cases_loop (c # cs) m = (if Contains (Name c) m then True else blacks_cases_loop cs m)"

fun blacks_loop :: "Test \<Rightarrow> string list \<Rightarrow> bool" where
  "blacks_loop t [] = False"
| "blacks_loop t (m # ms) =
     (if Contains (Name t) m then True
      else if blacks_cases_loop (Cases t) m then True
      else blacks_loop t ms)"

text \<open>
  The whitelist loop: both branches of the \<open>if\<close> on the target's name return, in the
  first iteration, so the loop over the declared cases that follows them in the source
  and every further iteration are never reached. \<open>None\<close>: the loop body never ran.
\<close>

fun whites_loop :: "Test \<Rightarrow> string list \<Rightarrow> bool option" where
  "whites_loop t [] = None"
| "whites_loop t (m # ms) = (if \<not> Contains (Name t) m then Some False else Some True)"

definition testMatchesList :: "Test \<Rightarrow> string list \<Rightarrow> string list \<Rightarrow> bool" where
  "testMatchesList t whites blacks =
     (if 0 < length blacks \<and> blacks_loop t blacks then False
      else if 0 < length whites then
        (case whites_loop t whites of Some b \<Rightarrow> b | None \<Rightarrow> True)
      else True)"

definition filterTests :: "Test list \<Rightarrow> (Test \<Rightarrow> bool) \<Rightarrow> Test list" where
  "filterTests tests allowed = filter allowed tests"

section \<open>Failure extraction\<close>

text \<open>
  \<open>bufio.Scanner\<close> with the default split function \<open>ScanLines\<close> over the whole
  output: a token ends at a newline or at the end of the data, one trailing carriage
  return is dropped, and a line that does not fit the scanner's buffer of
  \<open>MaxScanTokenSize\<close> bytes stops the scan with \<open>ErrTooLong\<close>.
\<close>

definition MaxScanTokenSize :: nat where
  "MaxScanTokenSize = 64 * 1024"

definition dropCR :: "string \<Rightarrow> string" where
  "dropCR data = (if data \<noteq> [] \<and> last data = CHR 0x0D then butlast data else data)"

datatype scan = Token string string | ScanEnd | ScanErr string

definition line_end :: "char \<Rightarrow> bool" where
  "line_end c = (c = CHR 0x0A)"

definition Scan :: "string \<Rightarrow> scan" where
  "Scan data =
     (if data = [] then ScanEnd
      else (let raw = takeWhile (\<lambda>c. \<not> line_end c) data
            in if MaxScanTokenSize \<le> length raw then ScanErr ''bufio.Scanner: token too long''
               else Token (dropCR raw) (drop (Suc (length raw)) data)))"

text \<open>Indexing a slice: Go panics out of range.\<close>

definition index :: "'a list \<Rightarrow> nat \<Rightarrow> abort + 'a" where
  "index xs i = (if i < length xs then Inr (xs ! i) else Inl (Panic ''index out of range''))"

text \<open>The three steps that cut the name out of a line holding the marker.\<close>

definition testname :: "string \<Rightarrow> abort + string" where
  "testname text =
     (let step1 = Split text CHR '':'' in
      case index step1 1 of
        Inl p \<Rightarrow> Inl p
      | Inr f1 \<Rightarrow>
          (let step2 = Split f1 CHR ''('' in
           case index step2 0 of
             Inl p \<Rightarrow> Inl p
           | Inr f0 \<Rightarrow> Inr (Trim f0 '' '')))"

function grepFailures_loop :: "string \<Rightarrow> string list \<Rightarrow> abort + string list" where
  "grepFailures_loop data fails =
     (case Scan data of
        ScanEnd \<Rightarrow> Inr fails
      | ScanErr e \<Rightarrow> Inl (Fatal e)
      | Token text rest \<Rightarrow>
          if \<not> Contains text ''--- FAIL:'' then grepFailures_loop rest fails
          else (case testname text of
                  Inl p \<Rightarrow> Inl p
                | Inr name \<Rightarrow> grepFailures_loop rest (fails @ [name])))"
  by pat_completeness auto
termination
  by (relation "measure (\<lambda>(data, fails). length data)")
     (auto simp: Scan_def Let_def split: if_splits)

declare grepFailures_loop.simps [simp del]

definition grepFailures :: "string \<Rightarrow> abort + string list" where
  "grepFailures gotestout = grepFailures_loop gotestout []"

text \<open>The lines of a text: the pieces between newlines, with no limit on their length.\<close>

function text_lines :: "string \<Rightarrow> string list" where
  "text_lines data =
     (if data = [] then []
      else (let raw = takeWhile (\<lambda>c. \<not> line_end c) data
            in raw # text_lines (drop (Suc (length raw)) data)))"
  by pat_completeness auto
termination
  by (relation "measure length") auto

declare text_lines.simps [simp del]

text \<open>
  Extraction as the specification words it: of every line containing the marker, the
  name field that follows the marker, before the parenthesized duration. The duration
  is the group that ends the line, \<open>(\<close>, digits and a point, \<open>s)\<close>, as the test runner
  prints it; a parenthesis inside the name belongs to the name.
\<close>

fun after_marker :: "string \<Rightarrow> string \<Rightarrow> string" where
  "after_marker [] m = []"
| "after_marker (c # s) m =
     (if prefix m (c # s) then drop (length m) (c # s) else after_marker s m)"

definition is_duration :: "string \<Rightarrow> bool" where
  "is_duration d =
     (d \<noteq> [] \<and> last d = CHR ''s'' \<and> butlast d \<noteq> []
      \<and> list_all (\<lambda>c. c \<in> set ''0123456789.'') (butlast d))"

text \<open>
  The text before the parenthesized duration that ends \<open>s\<close>; all of \<open>s\<close> when it does not
  end with one. \<open>inner\<close> is what follows the last \<open>(\<close>, reversed.
\<close>

definition before_duration :: "string \<Rightarrow> string" where
  "before_duration s =
     (let r = rev s;
          inner = takeWhile (\<lambda>c. c \<noteq> CHR ''('') r
      in if CHR ''('' \<in> set s \<and> inner \<noteq> [] \<and> hd inner = CHR '')''
            \<and> is_duration (rev (tl inner))
         then rev (drop (Suc (length inner)) r)
         else s)"

definition name_field :: "string \<Rightarrow> string" where
  "name_field line = Trim (before_duration (after_marker line ''--- FAIL:'')) '' ''"

definition extract_spec :: "string \<Rightarrow> string list" where
  "extract_spec output =
     map name_field (filter (\<lambda>l. Contains l ''--- FAIL:'') (map dropCR (text_lines output)))"

text \<open>
  A line in which the marker's colon is the first colon and, in what follows the marker,
  no colon stands before the first parenthesis and that parenthesis, if there is one, is
  the only one and opens a duration that ends the line.
\<close>

definition plain_fail_line :: "string \<Rightarrow> bool" where
  "plain_fail_line l =
     (let f = takeWhile (\<lambda>c. c \<noteq> CHR '':'') l;
          rest = drop (Suc (length f)) l;
          name = takeWhile (\<lambda>c. c \<noteq> CHR ''('') rest;
          d = drop (Suc (length name)) rest
      in suffix ''--- FAIL'' f \<and> length f < length l
         \<and> CHR '':'' \<notin> set name
         \<and> (CHR ''('' \<in> set rest \<longrightarrow>
               CHR ''('' \<notin> set d \<and> d \<noteq> [] \<and> last d = CHR '')''
               \<and> is_duration (butlast d)))"

text \<open>What the three steps of the source cut out of a line: from its second field.\<close>

definition second_field :: "string \<Rightarrow> string" where
  "second_field text =
     Trim (takeWhile (\<lambda>c. c \<noteq> CHR ''('') (Split text CHR '':'' ! 1)) '' ''"

section \<open>Running targets\<close>

text \<open>
  The outside world of one task (goroutine) is the external test runner. A task's
  \<open>trace\<close> is the list of commands it has run so far, and a \<open>runner\<close> gives, for the
  trace ending in the command being run, the combined output and the error of
  \<open>cmd.CombinedOutput()\<close> (\<open>None\<close>: exit status zero). Logging is left out.
\<close>

type_synonym command = "string list"
type_synonym trace = "command list"
type_synonym runner = "trace \<Rightarrow> string \<times> error"

text \<open>
  The command that \<open>runTest\<close> builds for a target; \<open>commandPrefix\<close> has two elements
  on every platform.
\<close>

definition go_test :: "env \<Rightarrow> Test \<Rightarrow> command" where
  "go_test E t =
     (let args = ''test '' @ Name t
      in [commandPrefix E ! 0, commandPrefix E ! 1, goExecutablePath E @ '' '' @ args])"

text \<open>\<open>runTest\<close>: the output and error of the command, the target with one more trial done.\<close>

definition runTest :: "env \<Rightarrow> runner \<Rightarrow> Test \<Rightarrow> trace \<Rightarrow> (string \<times> error) \<times> Test \<times> trace" where
  "runTest E exec t tr =
     (let tr' = tr @ [go_test E t];
          (out, err) = exec tr'
      in ((out, err), t\<lparr>TrialsDone := TrialsDone t + 1\<rparr>, tr'))"

text \<open>
  \<open>tryTestCase\<close>: the target after the loop, the commands run, and the value sent on
  the channel (\<open>None\<close> is nil, success). The lemmas that precede the function serve
  its termination proof: the guard keeps \<open>TrialsDone\<close> below a value of the type, so
  the increment does not wrap.
\<close>

lemma sint_succ: "(x::int64) <s y \<Longrightarrow> sint (x + 1) = sint x + 1"
proof -
  assume a: "x <s y"
  have 1: "sint x < sint y" using a by (simp add: word_sless_alt)
  have 2: "sint y < 2 ^ 63" using sint_lt [of y] by simp
  have 3: "- (2 ^ 63) \<le> sint x" using sint_ge [of x] by simp
  have "sint (x + 1) = signed_take_bit 63 (sint x + 1)"
    by (simp add: sint_word_add)
  also have "\<dots> = sint x + 1"
    using 1 2 3 by (simp add: signed_take_bit_int_eq_self_iff)
  finally show ?thesis .
qed

lemma runTest_eq:
  "runTest E exec t tr
     = (exec (tr @ [go_test E t]), t\<lparr>TrialsDone := TrialsDone t + 1\<rparr>, tr @ [go_test E t])"
  by (simp add: runTest_def Let_def split: prod.splits)

lemma getTrialsAllowed_runTest:
  "runTest E exec t tr = (r, t', tr') \<Longrightarrow> getTrialsAllowed config t' = getTrialsAllowed config t"
  by (auto simp: runTest_eq getTrialsAllowed_def)

lemma TrialsDone_runTest:
  "runTest E exec t tr = (r, t', tr') \<Longrightarrow> TrialsDone t' = TrialsDone t + 1"
  by (auto simp: runTest_eq)

function tryTestCase ::
  "env \<Rightarrow> Config option \<Rightarrow> runner \<Rightarrow> Test \<Rightarrow> trace \<Rightarrow> abort + (Test \<times> trace \<times> error)" where
  "tryTestCase E config exec t tr =
     (case getTrialsAllowed config t of
        Inl p \<Rightarrow> Inl p
      | Inr allowed \<Rightarrow>
          if TrialsDone t <s allowed then
            (case runTest E exec t tr of
               ((out, e), t', tr') \<Rightarrow>
                 if e = None then Inr (t', tr', None)
                 else tryTestCase E config exec t' tr')
          else Inr (t, tr, Some (''FAIL '' @ Name t)))"
  by pat_completeness auto
termination
proof (relation "measure (\<lambda>(E, config, exec, t, tr).
            case getTrialsAllowed config t of Inl p \<Rightarrow> 0
            | Inr allowed \<Rightarrow> nat (sint allowed - sint (TrialsDone t)))", goal_cases)
  case 1
  show ?case by simp
next
  case (2 E config exec t tr allowed r rest out e t' tr')
  from 2 have run: "runTest E exec t tr = (r, t', tr')" by simp
  have "sint (TrialsDone t') = sint (TrialsDone t) + 1"
    using TrialsDone_runTest [OF run] sint_succ [OF 2(2)] by simp
  moreover have "sint (TrialsDone t) < sint allowed"
    using 2(2) by (simp add: word_sless_alt)
  ultimately show ?case
    using getTrialsAllowed_runTest [OF run, of config] 2(1) by simp
qed

declare tryTestCase.simps [simp del]

text \<open>
  A top-level task and the retry loops it starts run concurrently, each with its own
  runner. \<open>child_exec W i\<close> is the runner of the loop of the \<open>i\<close>-th discovered case,
  and \<open>arrival W i\<close> the time at which that loop's report reaches the channel: the
  receiver sees the reports in the order of these times.
\<close>

record world =
  exec :: runner
  child_exec :: "nat \<Rightarrow> runner"
  arrival :: "nat \<Rightarrow> nat"

definition in_arrival_order :: "(nat \<Rightarrow> nat) \<Rightarrow> 'a list \<Rightarrow> 'a list" where
  "in_arrival_order at xs = map snd (sort_key (\<lambda>(i, x). at i) (enumerate 0 xs))"

text \<open>
  The receiving loop at the end of \<open>tryPackageTest\<close> and of \<open>run\<close>: the first non-nil
  error received is the result. A task that ended the process delivers that instead.
\<close>

fun receive :: "(abort + error) list \<Rightarrow> abort + error" where
  "receive [] = Inr None"
| "receive (Inl a # rs) = Inl a"
| "receive (Inr e # rs) = (if e \<noteq> None then Inr e else receive rs)"

text \<open>
  What a top-level task leaves behind: its target, the commands it ran itself, what the
  retry loop of each discovered case does when it runs to its end (in the order of
  discovery), and the value it sent on its channel.
\<close>

record report =
  target :: Test
  executed :: trace
  discovered :: "(abort + Test \<times> trace \<times> error) list"
  sent :: error

definition delivered :: "abort + Test \<times> trace \<times> error \<Rightarrow> abort + error" where
  "delivered r = (case r of Inl a \<Rightarrow> Inl a | Inr (t, tr, e) \<Rightarrow> Inr e)"

text \<open>
  The target that \<open>tryPackageTest\<close> makes for a failing name found in the output of the
  group \<open>t\<close>. The identifier \<open>pkg\<close> applied in the composite literal is not declared in
  the source and is a parameter.
\<close>

definition discovered_case :: "env \<Rightarrow> (string \<Rightarrow> string) \<Rightarrow> Test \<Rightarrow> string \<Rightarrow> Test" where
  "discovered_case E pkg t f =
     \<lparr>Name = f, TrialsDone = 1, TrialsAllowed = 0, AnyFailing = False, Cases = [],
      Pkg = pkg (getNonRecursivePackageName E (Pkg t))\<rparr>"

text \<open>\<open>tryPackageTest\<close>.\<close>

definition tryPackageTest ::
  "env \<Rightarrow> Config option \<Rightarrow> (string \<Rightarrow> string) \<Rightarrow> world \<Rightarrow> Test \<Rightarrow> abort + report" where
  "tryPackageTest E config pkg W t =
     (case runTest E (exec W) t [] of
        ((out, e), t', tr') \<Rightarrow>
          (case e of
             None \<Rightarrow> Inr \<lparr>target = t', executed = tr', discovered = [], sent = None\<rparr>
           | Some err \<Rightarrow>
               (case grepFailures out of
                  Inl a \<Rightarrow> Inl a
                | Inr fails \<Rightarrow>
                    if length fails = 0 then
                      Inl (Fatal (getNonRecursivePackageName E (Name t')
                             @ '' reported failure, but no failing tests were discovered, err=''
                             @ err))
                    else
                      (let failingTests = map (discovered_case E pkg t') fails;
                           loops = map (\<lambda>(i, f). tryTestCase E config (child_exec W i) f [])
                                     (enumerate 0 failingTests);
                           pc = in_arrival_order (arrival W) (map delivered loops)
                       in (case receive pc of
                             Inl a \<Rightarrow> Inl a
                           | Inr e \<Rightarrow> Inr \<lparr>target = t', executed = tr',
                                           discovered = loops, sent = e\<rparr>)))))"

definition case_report :: "abort + Test \<times> trace \<times> error \<Rightarrow> abort + report" where
  "case_report r =
     (case r of
        Inl a \<Rightarrow> Inl a
      | Inr (t, tr, e) \<Rightarrow> Inr \<lparr>target = t, executed = tr, discovered = [], sent = e\<rparr>)"

definition tryTest ::
  "env \<Rightarrow> Config option \<Rightarrow> (string \<Rightarrow> string) \<Rightarrow> world \<Rightarrow> Test \<Rightarrow> abort + report" where
  "tryTest E config pkg W t =
     (if length (Cases t) \<noteq> 0 then case_report (tryTestCase E config (exec W) t [])
      else tryPackageTest E config pkg W t)"

section \<open>Loading the configuration and the run\<close>

text \<open>
  What \<open>run\<close> meets outside the program: the files that can be opened and their
  content (or the error of \<open>os.Open\<close>), \<open>filepath.Abs\<close> after \<open>filepath.Clean\<close>,
  \<open>yaml.Unmarshal\<close> into the \<open>config\<close> pointer, the world of the task of the \<open>i\<close>-th
  target, and the times at which the tasks' reports arrive.
\<close>

record outside =
  files :: "string \<Rightarrow> string + string"
  Abs :: "string \<Rightarrow> string"
  Unmarshal :: "string \<Rightarrow> Config option \<Rightarrow> error \<times> Config option"
  worlds :: "nat \<Rightarrow> world"
  arrivals :: "nat \<Rightarrow> nat"

text \<open>
  \<open>(*os.File).Read(b)\<close> at the start of a file: at most \<open>len(b)\<close> bytes are stored
  into \<open>b\<close>; a read into a buffer of length zero returns \<open>0, nil\<close>, and a read at the
  end of the file returns \<open>0, io.EOF\<close>.
\<close>

definition Read :: "string \<Rightarrow> string \<Rightarrow> string \<times> nat \<times> error" where
  "Read content b =
     (if length b = 0 then (b, 0, None)
      else if content = [] then (b, 0, Some ''EOF'')
      else (let n = min (length b) (length content)
            in (take n content @ drop n b, n, None)))"

text \<open>\<open>setConfigFromFile\<close>: the error returned and the \<open>config\<close> pointer afterwards.\<close>

definition setConfigFromFile ::
  "outside \<Rightarrow> string \<Rightarrow> (Test \<Rightarrow> bool) \<Rightarrow> Config option \<Rightarrow> error \<times> Config option" where
  "setConfigFromFile X f allowed config =
     (case files X f of
        Inl err \<Rightarrow> (Some err, config)
      | Inr content \<Rightarrow>
          (let b = [];
               (b, n, err) = Read content b
           in if err \<noteq> None then (err, config)
              else Unmarshal X b config))"

text \<open>\<open>%d\<close> of \<open>fmt\<close> for an \<open>int\<close>.\<close>

fun digits :: "nat \<Rightarrow> string" where
  "digits n = (if n < 10 then [''0123456789'' ! n] else digits (n div 10) @ [''0123456789'' ! (n mod 10)])"

declare digits.simps [simp del]

definition Itoa :: "int64 \<Rightarrow> string" where
  "Itoa n = (if sint n < 0 then CHR ''-'' # digits (nat (- sint n)) else digits (nat (sint n)))"

text \<open>
  \<open>run\<close>. The source ranges over a variable \<open>tests\<close> that it does not declare: it is a
  parameter, as is \<open>pkg\<close>. The result is the error returned (or how the process ended),
  the \<open>config\<close> pointer afterwards and the reports of the tasks started.
\<close>

definition run ::
  "env \<Rightarrow> outside \<Rightarrow> (string \<Rightarrow> string) \<Rightarrow> Test list \<Rightarrow> Config option
     \<Rightarrow> string \<Rightarrow> string \<Rightarrow> string \<Rightarrow> int64
     \<Rightarrow> (abort + error) \<times> Config option \<times> (abort + report) list" where
  "run E X pkg tests config testsFile whitelistMatch blacklistMatch trialsN =
     (if trialsN = 0 then
        (Inr (Some (''trials allowed must be >0, got: '' @ Itoa trialsN)), config, [])
      else
        (case config of
           None \<Rightarrow> (Inl (Panic ''invalid memory address or nil pointer dereference''), config, [])
         | Some cfg \<Rightarrow>
             (let config = Some (cfg\<lparr>GlobalTrialsAllowed := trialsN\<rparr>);
                  whites = parseMatchList whitelistMatch;
                  blacks = parseMatchList blacklistMatch;
                  testsFile = Abs X testsFile;
                  allowed = (\<lambda>t. testMatchesList t whites blacks);
                  (err, config) = setConfigFromFile X testsFile allowed config
              in if err \<noteq> None then (Inr err, config, [])
                 else
                   (let tasks = map (\<lambda>(i, t). tryTest E config pkg (worlds X i) t)
                                  (enumerate 0 tests);
                        results = in_arrival_order (arrivals X) (map (map_sum id sent) tasks)
                    in (receive results, config, tasks)))))"

section \<open>Example targets and worlds\<close>

definition util_target :: Test where
  "util_target = \<lparr>Name = ''pkg/util'', TrialsDone = 0, TrialsAllowed = 0,
      AnyFailing = False, Cases = [], Pkg = []\<rparr>"

text \<open>A world in which the group does not build: the run fails and names no test.\<close>

definition build_failure :: world where
  "build_failure = \<lparr>exec = (\<lambda>tr. (''# pkg/util: build failed'', Some ''exit status 2'')),
                    child_exec = (\<lambda>i tr. ([], None)), arrival = (\<lambda>i. i)\<rparr>"

text \<open>
  Runners: one whose every command passes, one whose every command fails and names
  \<open>TestA\<close>, and one that fails the task's first command and passes from the second on.
\<close>

definition always_pass :: runner where
  "always_pass tr = (''ok'', None)"

definition always_fail :: runner where
  "always_fail tr = (''--- FAIL: TestA (0.01s)'', Some ''exit status 1'')"

definition passes_second :: runner where
  "passes_second tr = (if length tr < 2 then always_fail tr else always_pass tr)"

text \<open>Worlds in which every command fails, or passes, for the task and its retry loops.\<close>

definition failing_world :: world where
  "failing_world = \<lparr>exec = always_fail, child_exec = (\<lambda>i. always_fail), arrival = (\<lambda>i. i)\<rparr>"

definition passing_world :: world where
  "passing_world = \<lparr>exec = always_pass, child_exec = (\<lambda>i. always_pass), arrival = (\<lambda>i. i)\<rparr>"

text \<open>
  An outside in which the tests file exists, the YAML parser leaves the configuration as
  it is (as it does on an empty document), and every command passes.
\<close>

definition example_outside :: outside where
  "example_outside =
     \<lparr>files = (\<lambda>p. if p = ''/work/tests.yml'' then Inr ''defaultTrialsAllowed: 3''
                    else Inl (''open '' @ p @ '': no such file or directory'')),
      Abs = (\<lambda>p. ''/work/'' @ p),
      Unmarshal = (\<lambda>b config. (None, config)),
      worlds = (\<lambda>i. passing_world),
      arrivals = (\<lambda>i. i)\<rparr>"

text \<open>
  A world for group reconciliation: the group run fails and names \<open>TestAlpha\<close> and
  \<open>TestBeta\<close>; on its retry \<open>TestAlpha\<close> passes and \<open>TestBeta\<close> keeps failing.
\<close>

definition two_failures :: string where
  "two_failures = ''=== RUN   TestAlpha'' @ [CHR 0x0A]
     @ ''--- FAIL: TestAlpha (1.23s)'' @ [CHR 0x0A]
     @ ''    alpha_test.go:10 unexpected value'' @ [CHR 0x0A]
     @ ''--- FAIL: TestBeta (0.01s)'' @ [CHR 0x0A]
     @ ''FAIL'' @ [CHR 0x0A]"

definition reconcile_world :: world where
  "reconcile_world =
     \<lparr>exec = (\<lambda>tr. (two_failures, Some ''exit status 1'')),
      child_exec = (\<lambda>i. if i = 0 then always_pass else always_fail),
      arrival = (\<lambda>i. i)\<rparr>"

section \<open>Theorems\<close>

subsection \<open>Trial budget resolution\<close>

lemma getCase_loop_Some: "getCase_loop cs name = Some c \<Longrightarrow> c \<in> set cs \<and> Name c = name"
  by (induction cs) (auto split: if_splits)

text \<open>
  C1, as stated, fails. With a case override unset, a group override of 5 and a global
  default of 1, the case-scoped target that \<open>buildTestFromCase\<close> derives resolves to
  the global default 1, not to the group override 5 that the three-level precedence gives:
  the derived target never receives the group's override.
\<close>

theorem budget_precedence_counterexample:
  "buildTestFromCase linux (example_group 5 0) ''TestA''
     = Inr \<lparr>Name = ''pkg -run TestA'', TrialsDone = 0, TrialsAllowed = 0,
            AnyFailing = False, Cases = [], Pkg = []\<rparr>
   \<and> getTrialsAllowed (Some (example_config 1))
        \<lparr>Name = ''pkg -run TestA'', TrialsDone = 0, TrialsAllowed = 0,
         AnyFailing = False, Cases = [], Pkg = []\<rparr> = Inr 1
   \<and> resolve_spec (example_config 1) (example_group 5 0)
        \<lparr>Name = ''TestA'', TrialsDone = 0, TrialsAllowed = 0\<rparr> = 5"
  by (simp add: buildTestFromCase_def getCase_def example_group_def example_config_def
      getTrialsAllowed_def resolve_spec_def getNonRecursivePackageName_def TrimSuffix_def
      Separator_def linux_def suffix_def)

text \<open>
  C1, amended: the budget of a target is its own override when that is non-zero and the
  global default otherwise; a case-scoped target derived from a group and a declared
  case carries the case's override and never the group's, so its budget is the case
  override when non-zero and the global default otherwise.
\<close>

theorem budget_resolution:
  assumes "buildTestFromCase E g name = Inr out"
  shows "(\<exists>c. getCase g name = Some c
              \<and> getTrialsAllowed (Some cfg) out
                  = Inr (if TrialsAllowed c \<noteq> 0 then TrialsAllowed c
                         else GlobalTrialsAllowed cfg))
         \<and> getTrialsAllowed (Some cfg) g
             = Inr (if TrialsAllowed g \<noteq> 0 then TrialsAllowed g
                    else GlobalTrialsAllowed cfg)"
proof -
  from assms obtain c where c: "getCase g name = Some c"
    by (auto simp: buildTestFromCase_def split: option.splits)
  with assms have "TrialsAllowed out = TrialsAllowed c"
    by (auto simp: buildTestFromCase_def Let_def split: if_splits)
  with c show ?thesis
    by (simp add: getTrialsAllowed_def)
qed

theorem budget_resolution_witness:
  "getTrialsAllowed (Some (example_config 1))
     \<lparr>Name = ''pkg -run TestA'', TrialsDone = 0, TrialsAllowed = 3,
      AnyFailing = False, Cases = [], Pkg = []\<rparr> = Inr 3
   \<and> getTrialsAllowed (Some (example_config 1)) (example_group 5 3) = Inr 5"
proof -
  have b: "buildTestFromCase linux (example_group 5 3) ''TestA''
     = Inr \<lparr>Name = ''pkg -run TestA'', TrialsDone = 0, TrialsAllowed = 3,
            AnyFailing = False, Cases = [], Pkg = []\<rparr>"
    by (simp add: buildTestFromCase_def getCase_def example_group_def
        getNonRecursivePackageName_def TrimSuffix_def Separator_def linux_def suffix_def)
  show ?thesis
    using budget_resolution [OF b, of "example_config 1"]
    by (simp add: getCase_def example_group_def example_config_def)
qed


subsection \<open>Whitelist and blacklist\<close>

lemma Contains_sublist: "Contains s sub \<longleftrightarrow> sublist sub s"
  by (induction s) (auto simp: sublist_Cons_right)

lemma testMatchesList_eq:
  "testMatchesList t whites blacks
     = (\<not> blacks_loop t blacks \<and> (whites = [] \<or> Contains (Name t) (hd whites)))"
  by (cases whites; cases blacks) (auto simp: testMatchesList_def)

text \<open>
  C3: the code at the whitelist \<open>core,util\<close> and a target named \<open>pkg/util\<close> with no
  declared cases and no blacklist. The name contains the second whitelist substring, so
  the target should survive; \<open>testMatchesList\<close> returns false, since its whitelist loop
  returns in its first iteration on the first substring alone.
\<close>

theorem whitelist_later_entry_ignored:
  "testMatchesList util_target (parseMatchList ''core,util'') (parseMatchList []) = False
   \<and> parseMatchList ''core,util'' = [''core'', ''util'']
   \<and> Contains (Name util_target) ''util''"
  by (simp add: testMatchesList_def parseMatchList_def Trim_def util_target_def)

subsection \<open>Loading the configuration\<close>

text \<open>
  C10: for any two files that can be opened, whatever their paths and contents,
  \<open>setConfigFromFile\<close> returns the same error and leaves the same configuration, namely
  what the YAML parser makes of the empty buffer: the buffer read into has length zero,
  so no byte of a file reaches the parser.
\<close>

theorem setConfigFromFile_ignores_content:
  "setConfigFromFile (X\<lparr>files := (files X)(f1 := Inr c1)\<rparr>) f1 allowed1 config
     = setConfigFromFile (X\<lparr>files := (files X)(f2 := Inr c2)\<rparr>) f2 allowed2 config
   \<and> setConfigFromFile (X\<lparr>files := (files X)(f1 := Inr c1)\<rparr>) f1 allowed1 config
     = Unmarshal X [] config"
  by (simp add: setConfigFromFile_def Read_def)

subsection \<open>Group reconciliation\<close>

lemmas grep_eval = grepFailures_def grepFailures_loop.simps Scan_def line_end_def dropCR_def
  MaxScanTokenSize_def testname_def index_def Trim_def

lemmas run_eval = tryTestCase.simps runTest_eq go_test_def linux_def commandPrefix_def
  getCommandPrefix_def getTrialsAllowed_def example_config_def word_sless_alt

text \<open>
  C6: when the group run fails and extraction over its output yields no name,
  \<open>tryPackageTest\<close> ends the process through \<open>log.Fatalf\<close> with its own message; it sends
  nothing on the channel, neither nil (a pass) nor the error of an exhausted target.
\<close>

theorem diagnostic_gap_is_fatal:
  assumes "runTest E (exec W) t [] = ((out, Some err), t', tr')"
    and "grepFailures out = Inr []"
  shows "tryPackageTest E config pkg W t
           = Inl (Fatal (getNonRecursivePackageName E (Name t)
                   @ '' reported failure, but no failing tests were discovered, err='' @ err))
         \<and> (\<forall>rep. tryPackageTest E config pkg W t \<noteq> Inr rep)"
proof -
  have "Name t' = Name t"
    using assms(1) by (auto simp: runTest_eq)
  then show ?thesis
    using assms by (simp add: tryPackageTest_def)
qed

theorem diagnostic_gap_is_fatal_witness:
  "tryPackageTest linux (Some (example_config 3)) id build_failure util_target
     = Inl (Fatal ''pkg/util reported failure, but no failing tests were discovered, err=exit status 2'')
   \<and> (\<forall>rep. tryPackageTest linux (Some (example_config 3)) id build_failure util_target
             \<noteq> Inr rep)"
proof -
  have r: "runTest linux (exec build_failure) util_target []
      = ((''# pkg/util: build failed'', Some ''exit status 2''),
         util_target\<lparr>TrialsDone := 1\<rparr>,
         [[''/bin/sh'', ''-c'', ''/usr/local/go/bin/go test pkg/util'']])"
    by (simp add: run_eval build_failure_def util_target_def)
  have g: "grepFailures ''# pkg/util: build failed'' = Inr []"
    by (simp add: grep_eval)
  show ?thesis
    using diagnostic_gap_is_fatal [OF r g, of "Some (example_config 3)" id]
    by (simp add: util_target_def getNonRecursivePackageName_def TrimSuffix_def
        Separator_def linux_def suffix_def)
qed


subsection \<open>The case retry loop\<close>

lemma go_test_TrialsDone [simp]: "go_test E (t\<lparr>TrialsDone := n\<rparr>) = go_test E t"
  by (simp add: go_test_def)

lemma getTrialsAllowed_TrialsDone [simp]:
  "getTrialsAllowed config (t\<lparr>TrialsDone := n\<rparr>) = getTrialsAllowed config t"
  by (simp add: getTrialsAllowed_def)

text \<open>One iteration of the loop, once the budget is known.\<close>

lemma tryTestCase_step:
  "getTrialsAllowed config t = Inr A \<Longrightarrow>
   tryTestCase E config ex t tr =
     (if TrialsDone t <s A then
        (if snd (ex (tr @ [go_test E t])) = None
         then Inr (t\<lparr>TrialsDone := TrialsDone t + 1\<rparr>, tr @ [go_test E t], None)
         else tryTestCase E config ex (t\<lparr>TrialsDone := TrialsDone t + 1\<rparr>) (tr @ [go_test E t]))
      else Inr (t, tr, Some (''FAIL '' @ Name t)))"
  by (subst tryTestCase.simps) (simp add: runTest_eq split: prod.splits)

lemmas example_eval = util_target_def always_pass_def always_fail_def passes_second_def

text \<open>
  C2, as stated, fails, in two ways. With a budget of 1 and a first attempt that passes,
  the loop ends with trials-done 1, equal to trials-allowed 1, and its outcome is success,
  not exhaustion. And with a budget below the trials-done the loop starts with (here the
  global default \<open>-1\<close> and a fresh target), the loop ends at once, in exhaustion,
  with trials-done 0 above trials-allowed \<open>-1\<close>.
\<close>

theorem pass_on_last_attempt_counterexample:
  "tryTestCase linux (Some (example_config 1)) always_pass util_target []
     = Inr (util_target\<lparr>TrialsDone := 1\<rparr>,
            [[''/bin/sh'', ''-c'', ''/usr/local/go/bin/go test pkg/util'']], None)
   \<and> getTrialsAllowed (Some (example_config 1)) (util_target\<lparr>TrialsDone := 1\<rparr>) = Inr 1
   \<and> tryTestCase linux (Some (example_config (- 1))) always_pass util_target []
     = Inr (util_target, [], Some ''FAIL pkg/util'')
   \<and> getTrialsAllowed (Some (example_config (- 1))) util_target = Inr (- 1)
   \<and> \<not> TrialsDone util_target \<le>s - 1"
  by (simp add: run_eval example_eval word_sle_eq)

text \<open>
  C2, amended: the loop on a target whose budget resolves to \<open>A\<close> and whose trials-done
  is at most \<open>A\<close> when the loop starts terminates with trials-done at most \<open>A\<close>, having
  advanced trials-done by the number of commands it ran. Its outcome is success if and
  only if it ran a command and the last command it ran passed, and exhaustion otherwise;
  if the outcome is exhaustion then trials-done equals \<open>A\<close>. So trials-done equals \<open>A\<close>
  exactly when the outcome is exhaustion or the passing attempt was the last allowed one.
\<close>

theorem retry_loop_bound:
  assumes "getTrialsAllowed config t = Inr A" and "TrialsDone t \<le>s A"
  shows "\<exists>t' tr' e. tryTestCase E config ex t tr = Inr (t', tr', e)
           \<and> getTrialsAllowed config t' = Inr A
           \<and> TrialsDone t' \<le>s A
           \<and> (e \<noteq> None \<longrightarrow> TrialsDone t' = A)
           \<and> (\<exists>new. tr' = tr @ new
                  \<and> sint (TrialsDone t') = sint (TrialsDone t) + int (length new))
           \<and> (e = None \<longleftrightarrow> tr' \<noteq> tr \<and> snd (ex tr') = None)"
  using assms
proof (induction E config ex t tr rule: tryTestCase.induct)
  case (1 E config ex t tr)
  note step = tryTestCase_step [OF "1.prems"(1), of E ex tr]
  show ?case
  proof (cases "TrialsDone t <s A")
    case guard: True
    let ?t1 = "t\<lparr>TrialsDone := TrialsDone t + 1\<rparr>"
    let ?tr1 = "tr @ [go_test E t]"
    have s1: "sint (TrialsDone ?t1) = sint (TrialsDone t) + 1"
      using sint_succ [OF guard] by simp
    have le1: "TrialsDone ?t1 \<le>s A"
      using guard s1 by (simp add: word_sle_eq word_sless_alt)
    show ?thesis
    proof (cases "snd (ex ?tr1) = None")
      case True
      have res: "tryTestCase E config ex t tr = Inr (?t1, ?tr1, None)"
        using guard True by (simp add: step)
      have "\<exists>new. ?tr1 = tr @ new
              \<and> sint (TrialsDone ?t1) = sint (TrialsDone t) + int (length new)"
        using s1 by (intro exI [of _ "[go_test E t]"]) simp
      with res le1 True "1.prems"(1) show ?thesis by simp
    next
      case False
      have "\<exists>t' tr' e. tryTestCase E config ex ?t1 ?tr1 = Inr (t', tr', e)
           \<and> getTrialsAllowed config t' = Inr A
           \<and> TrialsDone t' \<le>s A
           \<and> (e \<noteq> None \<longrightarrow> TrialsDone t' = A)
           \<and> (\<exists>new. tr' = ?tr1 @ new
                  \<and> sint (TrialsDone t') = sint (TrialsDone ?t1) + int (length new))
           \<and> (e = None \<longleftrightarrow> tr' \<noteq> ?tr1 \<and> snd (ex tr') = None)"
      proof (rule "1.IH" [OF "1.prems"(1) guard])
        show "(ex ?tr1, ?t1, ?tr1) = runTest E ex t tr"
          by (simp add: runTest_eq)
        show "(fst (ex ?tr1), snd (ex ?tr1)) = ex ?tr1"
          by simp
        show "(?t1, ?tr1) = (?t1, ?tr1)" ..
        show "snd (ex ?tr1) \<noteq> None" by (rule False)
        show "getTrialsAllowed config ?t1 = Inr A" using "1.prems"(1) by simp
        show "TrialsDone ?t1 \<le>s A" by (rule le1)
      qed
      then obtain t' tr' e new where r:
        "tryTestCase E config ex ?t1 ?tr1 = Inr (t', tr', e)"
        "getTrialsAllowed config t' = Inr A"
        "TrialsDone t' \<le>s A"
        "e \<noteq> None \<longrightarrow> TrialsDone t' = A"
        "tr' = ?tr1 @ new"
        "sint (TrialsDone t') = sint (TrialsDone ?t1) + int (length new)"
        "e = None \<longleftrightarrow> tr' \<noteq> ?tr1 \<and> snd (ex tr') = None"
        by blast
      have res: "tryTestCase E config ex t tr = Inr (t', tr', e)"
        using guard False r(1) by (auto simp: step)
      have tr: "tr' = tr @ (go_test E t # new)"
        using r(5) by simp
      have cnt: "sint (TrialsDone t') = sint (TrialsDone t) + int (length (go_test E t # new))"
        using r(6) s1 by simp
      have ne: "tr' \<noteq> tr"
        using tr by simp
      have iff: "e = None \<longleftrightarrow> tr' \<noteq> tr \<and> snd (ex tr') = None"
      proof (cases "tr' = ?tr1")
        case True
        with r(7) have "e \<noteq> None" by simp
        moreover have "snd (ex tr') \<noteq> None" using True False by simp
        ultimately show ?thesis by blast
      next
        case False
        with r(7) ne show ?thesis by blast
      qed
      from tr cnt have new: "\<exists>new. tr' = tr @ new
              \<and> sint (TrialsDone t') = sint (TrialsDone t) + int (length new)"
        by blast
      show ?thesis
        apply (rule exI [of _ t'], rule exI [of _ tr'], rule exI [of _ e])
        apply (intro conjI)
             apply (rule res)
            apply (rule r(2))
           apply (rule r(3))
          apply (rule r(4))
         apply (rule new)
        apply (rule iff)
        done
    qed
  next
    case False
    with "1.prems" have "sint (TrialsDone t) = sint A"
      by (simp add: word_sle_eq word_sless_alt)
    then have "TrialsDone t = A"
      by (rule signed_word_eqI)
    with False "1.prems"(1) show ?thesis by (simp add: step)
  qed
qed

theorem retry_loop_bound_witness:
  "getTrialsAllowed (Some (example_config 3)) util_target = Inr 3
   \<and> TrialsDone util_target \<le>s 3
   \<and> (\<exists>t' tr' e.
         tryTestCase linux (Some (example_config 3)) always_fail util_target []
           = Inr (t', tr', e)
         \<and> getTrialsAllowed (Some (example_config 3)) t' = Inr 3
         \<and> TrialsDone t' \<le>s 3
         \<and> (e \<noteq> None \<longrightarrow> TrialsDone t' = 3)
         \<and> (\<exists>new. tr' = [] @ new
                \<and> sint (TrialsDone t') = sint (TrialsDone util_target) + int (length new))
         \<and> (e = None \<longleftrightarrow> tr' \<noteq> [] \<and> snd (always_fail tr') = None))"
proof -
  have a: "getTrialsAllowed (Some (example_config 3)) util_target = Inr 3"
    by (simp add: getTrialsAllowed_def example_config_def util_target_def)
  have b: "TrialsDone util_target \<le>s 3"
    by (simp add: util_target_def word_sle_eq)
  from a b retry_loop_bound [OF a b, of linux always_fail "[]"] show ?thesis
    by (intro conjI)
qed

text \<open>
  C9: if the attempts before the \<open>(n+1)\<close>-th fail, the \<open>(n+1)\<close>-th passes and the budget
  \<open>A\<close> allows it, the loop runs exactly \<open>n+1\<close> commands and reports success, whatever
  budget remains.
\<close>

theorem stop_on_first_success:
  assumes "getTrialsAllowed config t = Inr A"
    and "sint (TrialsDone t) + int n < sint A"
    and "\<forall>k<n. snd (ex (tr @ replicate (Suc k) (go_test E t))) \<noteq> None"
    and "snd (ex (tr @ replicate (Suc n) (go_test E t))) = None"
  shows "tryTestCase E config ex t tr
           = Inr (t\<lparr>TrialsDone := TrialsDone t + of_nat n + 1\<rparr>,
                  tr @ replicate (Suc n) (go_test E t), None)"
  using assms
proof (induction n arbitrary: t tr)
  case 0
  then have "TrialsDone t <s A" by (simp add: word_sless_alt)
  with 0 show ?case by (simp add: tryTestCase_step)
next
  case (Suc n)
  let ?c = "go_test E t"
  let ?t1 = "t\<lparr>TrialsDone := TrialsDone t + 1\<rparr>"
  from Suc.prems(2) have guard: "TrialsDone t <s A" by (simp add: word_sless_alt)
  from Suc.prems(3) have fail0: "snd (ex (tr @ [?c])) \<noteq> None"
    by (metis One_nat_def replicate_0 replicate_Suc zero_less_Suc)
  have "tryTestCase E config ex ?t1 (tr @ [?c])
          = Inr (?t1\<lparr>TrialsDone := TrialsDone ?t1 + of_nat n + 1\<rparr>,
                 (tr @ [?c]) @ replicate (Suc n) (go_test E ?t1), None)"
  proof (rule Suc.IH)
    show "getTrialsAllowed config ?t1 = Inr A" using Suc.prems(1) by simp
    show "sint (TrialsDone ?t1) + int n < sint A"
      using sint_succ [OF guard] Suc.prems(2) by simp
    show "\<forall>k<n. snd (ex ((tr @ [?c]) @ replicate (Suc k) (go_test E ?t1))) \<noteq> None"
      using Suc.prems(3) by (auto simp: replicate_app_Cons_same)
    show "snd (ex ((tr @ [?c]) @ replicate (Suc n) (go_test E ?t1))) = None"
      using Suc.prems(4) by (simp add: replicate_app_Cons_same)
  qed
  moreover have "?t1\<lparr>TrialsDone := TrialsDone ?t1 + of_nat n + 1\<rparr>
      = t\<lparr>TrialsDone := TrialsDone t + of_nat (Suc n) + 1\<rparr>"
    by (simp add: add.commute add.left_commute)
  ultimately show ?case
    using guard fail0 Suc.prems(1)
    by (auto simp: tryTestCase_step replicate_app_Cons_same)
qed

text \<open>The example of C9: a pass on attempt 2 of an allowed 5; no third command is run.\<close>

theorem stop_on_first_success_witness:
  "tryTestCase linux (Some (example_config 5)) passes_second util_target []
     = Inr (util_target\<lparr>TrialsDone := 2\<rparr>,
            [[''/bin/sh'', ''-c'', ''/usr/local/go/bin/go test pkg/util''],
             [''/bin/sh'', ''-c'', ''/usr/local/go/bin/go test pkg/util'']], None)"
proof -
  have a: "getTrialsAllowed (Some (example_config 5)) util_target = Inr 5"
    by (simp add: getTrialsAllowed_def example_config_def util_target_def)
  have b: "sint (TrialsDone util_target) + int 1 < sint (5 :: int64)"
    by (simp add: util_target_def)
  have c: "\<forall>k<1. snd (passes_second ([] @ replicate (Suc k) (go_test linux util_target)))
              \<noteq> None"
    by (simp add: example_eval)
  have d: "snd (passes_second ([] @ replicate (Suc 1) (go_test linux util_target))) = None"
    by (simp add: example_eval)
  show ?thesis
    using stop_on_first_success [OF a b c d]
    by (simp add: go_test_def linux_def commandPrefix_def getCommandPrefix_def
        util_target_def)
qed


subsection \<open>Dispatch of a target\<close>

lemmas task_eval = tryTest_def tryPackageTest_def case_report_def delivered_def
  in_arrival_order_def discovered_case_def getNonRecursivePackageName_def TrimSuffix_def
  Separator_def suffix_def

text \<open>
  C5, as stated, fails: a group target \<open>pkg/...\<close> that carries the declared sub-case
  \<open>TestA\<close>, and is not scoped to it, goes through the case retry loop as a whole (three
  runs of the group, exhaustion of the group) and not through group reconciliation (one
  run of the group, then a retry of the discovered case).
\<close>

theorem dispatch_counterexample:
  "tryTest linux (Some (example_config 2)) id failing_world (example_group 3 0)
     = Inr \<lparr>target = (example_group 3 0)\<lparr>TrialsDone := 3\<rparr>,
            executed = [[''/bin/sh'', ''-c'', ''/usr/local/go/bin/go test pkg/...''],
                        [''/bin/sh'', ''-c'', ''/usr/local/go/bin/go test pkg/...''],
                        [''/bin/sh'', ''-c'', ''/usr/local/go/bin/go test pkg/...'']],
            discovered = [], sent = Some ''FAIL pkg/...''\<rparr>
   \<and> tryPackageTest linux (Some (example_config 2)) id failing_world (example_group 3 0)
     = Inr \<lparr>target = (example_group 3 0)\<lparr>TrialsDone := 1\<rparr>,
            executed = [[''/bin/sh'', ''-c'', ''/usr/local/go/bin/go test pkg/...'']],
            discovered = [Inr (\<lparr>Name = ''TestA'', TrialsDone = 2, TrialsAllowed = 0,
                                AnyFailing = False, Cases = [], Pkg = []\<rparr>,
                               [[''/bin/sh'', ''-c'', ''/usr/local/go/bin/go test TestA'']],
                               Some ''FAIL TestA'')],
            sent = Some ''FAIL TestA''\<rparr>"
  by (simp add: task_eval run_eval grep_eval example_eval example_group_def failing_world_def)

text \<open>
  C5, amended: \<open>tryTest\<close> runs the case retry loop on the target itself when the target
  carries at least one declared sub-case, and group reconciliation when it carries none;
  a case-scoped target derived by \<open>buildTestFromCase\<close> carries none and so undergoes
  group reconciliation.
\<close>

theorem tryTest_dispatch:
  "(Cases t \<noteq> [] \<longrightarrow>
      tryTest E config pkg W t = case_report (tryTestCase E config (exec W) t []))
   \<and> (Cases t = [] \<longrightarrow> tryTest E config pkg W t = tryPackageTest E config pkg W t)
   \<and> (buildTestFromCase E g name = Inr out \<longrightarrow>
        tryTest E config pkg W out = tryPackageTest E config pkg W out)"
  by (auto simp: tryTest_def buildTestFromCase_def Let_def split: option.splits)

theorem tryTest_dispatch_witness:
  "Cases (example_group 3 0) \<noteq> []
   \<and> tryTest linux (Some (example_config 2)) id failing_world (example_group 3 0)
       = case_report (tryTestCase linux (Some (example_config 2)) (exec failing_world)
                        (example_group 3 0) [])
   \<and> Cases util_target = []
   \<and> tryTest linux (Some (example_config 2)) id failing_world util_target
       = tryPackageTest linux (Some (example_config 2)) id failing_world util_target
   \<and> buildTestFromCase linux (example_group 3 0) ''TestA''
       = Inr \<lparr>Name = ''pkg -run TestA'', TrialsDone = 0, TrialsAllowed = 0,
              AnyFailing = False, Cases = [], Pkg = []\<rparr>
   \<and> tryTest linux (Some (example_config 2)) id failing_world
         \<lparr>Name = ''pkg -run TestA'', TrialsDone = 0, TrialsAllowed = 0,
          AnyFailing = False, Cases = [], Pkg = []\<rparr>
       = tryPackageTest linux (Some (example_config 2)) id failing_world
           \<lparr>Name = ''pkg -run TestA'', TrialsDone = 0, TrialsAllowed = 0,
            AnyFailing = False, Cases = [], Pkg = []\<rparr>"
proof -
  have a: "Cases (example_group 3 0) \<noteq> []"
    by (simp add: example_group_def)
  have b: "Cases util_target = []"
    by (simp add: util_target_def)
  have c: "buildTestFromCase linux (example_group 3 0) ''TestA''
       = Inr \<lparr>Name = ''pkg -run TestA'', TrialsDone = 0, TrialsAllowed = 0,
              AnyFailing = False, Cases = [], Pkg = []\<rparr>"
    by (simp add: buildTestFromCase_def getCase_def example_group_def
        getNonRecursivePackageName_def TrimSuffix_def Separator_def linux_def suffix_def)
  show ?thesis
    using a b c
      tryTest_dispatch [of "example_group 3 0" linux "Some (example_config 2)" id
        failing_world "example_group 3 0" "''TestA''"]
      tryTest_dispatch [of util_target linux "Some (example_config 2)" id
        failing_world "example_group 3 0" "''TestA''"]
    by simp
qed

subsection \<open>Validation of the trial count\<close>

text \<open>
  C7: the code at a global trial count of \<open>-1\<close>, with a tests file that opens and one
  group target whose run passes. The count is stored as the global default, the target
  is run and \<open>run\<close> returns nil (with the \<open>config\<close> pointer still nil, the store
  panics instead); the claimed configuration error is returned only for a count of
  exactly \<open>0\<close>, although its message demands a count above zero.
\<close>

theorem negative_trials_run:
  "run linux example_outside id [util_target] (Some (example_config 0))
       ''tests.yml'' [] [] (- 1)
     = (Inr None, Some (example_config (- 1)),
        [Inr \<lparr>target = util_target\<lparr>TrialsDone := 1\<rparr>,
              executed = [[''/bin/sh'', ''-c'', ''/usr/local/go/bin/go test pkg/util'']],
              discovered = [], sent = None\<rparr>])
   \<and> run linux example_outside id [util_target] None ''tests.yml'' [] [] (- 1)
     = (Inl (Panic ''invalid memory address or nil pointer dereference''), None, [])
   \<and> run linux example_outside id [util_target] (Some (example_config 0))
       ''tests.yml'' [] [] 0
     = (Inr (Some ''trials allowed must be >0, got: 0''), Some (example_config 0), [])"
  by (simp add: run_def setConfigFromFile_def Read_def parseMatchList_def example_outside_def
      passing_world_def task_eval run_eval example_eval Itoa_def digits.simps)

subsection \<open>Group reconciliation: the reconciled outcome\<close>


text \<open>The loop returns whenever the budget can be read, and its only error names its target.\<close>

lemma tryTestCase_returns:
  assumes "getTrialsAllowed config t = Inr A"
  shows "\<exists>t' tr' e. tryTestCase E config ex t tr = Inr (t', tr', e)
           \<and> (e \<noteq> None \<longrightarrow> e = Some (''FAIL '' @ Name t))"
  using assms
proof (induction E config ex t tr rule: tryTestCase.induct)
  case (1 E config ex t tr)
  note step = tryTestCase_step [OF "1.prems"(1), of E ex tr]
  let ?t1 = "t\<lparr>TrialsDone := TrialsDone t + 1\<rparr>"
  show ?case
  proof (cases "TrialsDone t <s A \<and> snd (ex (tr @ [go_test E t])) \<noteq> None")
    case True
    have "\<exists>t' tr' e. tryTestCase E config ex ?t1 (tr @ [go_test E t]) = Inr (t', tr', e)
           \<and> (e \<noteq> None \<longrightarrow> e = Some (''FAIL '' @ Name ?t1))"
    proof (rule "1.IH" [OF "1.prems"(1)])
      show "TrialsDone t <s A" using True by simp
      show "(ex (tr @ [go_test E t]), ?t1, tr @ [go_test E t]) = runTest E ex t tr"
        by (simp add: runTest_eq)
      show "(fst (ex (tr @ [go_test E t])), snd (ex (tr @ [go_test E t])))
              = ex (tr @ [go_test E t])"
        by simp
      show "(?t1, tr @ [go_test E t]) = (?t1, tr @ [go_test E t])" ..
      show "snd (ex (tr @ [go_test E t])) \<noteq> None" using True by simp
      show "getTrialsAllowed config ?t1 = Inr A" using "1.prems"(1) by simp
    qed
    with True show ?thesis by (auto simp: step)
  next
    case False
    then show ?thesis by (auto simp: step)
  qed
qed

text \<open>The receiving loop over reports that are all values.\<close>

lemma receive_values:
  assumes "\<forall>r\<in>set rs. \<exists>e. r = Inr e"
  shows "\<exists>e. receive rs = Inr e
           \<and> (e = None \<longleftrightarrow> (\<forall>r\<in>set rs. r = Inr None))
           \<and> (e \<noteq> None \<longrightarrow> (\<exists>p<length rs. rs ! p = Inr e \<and> (\<forall>q<p. rs ! q = Inr None)))"
  using assms
proof (induction rs)
  case Nil
  show ?case by simp
next
  case (Cons r rs)
  then obtain e0 where r: "r = Inr e0" by auto
  show ?case
  proof (cases "e0 = None")
    case True
    from Cons obtain e where e: "receive rs = Inr e"
      "e = None \<longleftrightarrow> (\<forall>r\<in>set rs. r = Inr None)"
      "e \<noteq> None \<longrightarrow> (\<exists>p<length rs. rs ! p = Inr e \<and> (\<forall>q<p. rs ! q = Inr None))"
      by auto
    have 1: "receive (r # rs) = Inr e"
      using r True e(1) by simp
    have 2: "e = None \<longleftrightarrow> (\<forall>r'\<in>set (r # rs). r' = Inr None)"
      using r True e(2) by simp
    have 3: "e \<noteq> None \<longrightarrow>
            (\<exists>p<length (r # rs). (r # rs) ! p = Inr e \<and> (\<forall>q<p. (r # rs) ! q = Inr None))"
    proof
      assume "e \<noteq> None"
      with e(3) obtain p where p: "p < length rs" "rs ! p = Inr e" "\<forall>q<p. rs ! q = Inr None"
        by auto
      have "\<forall>q<Suc p. (r # rs) ! q = Inr None"
        using p(3) r True by (auto simp: nth_Cons split: nat.splits)
      with p(1,2) show "\<exists>p<length (r # rs). (r # rs) ! p = Inr e \<and> (\<forall>q<p. (r # rs) ! q = Inr None)"
        by (intro exI [of _ "Suc p"]) simp
    qed
    from 1 2 3 show ?thesis by blast
  next
    case False
    with r show ?thesis by (auto intro: exI [of _ 0])
  qed
qed

text \<open>
  What stands at position \<open>p\<close> of the arrival order is the report of some task \<open>i\<close>, and
  every task whose time is before that of \<open>i\<close> stands before \<open>p\<close>.
\<close>

lemma arrival_earlier:
  assumes "p < length xs"
  shows "\<exists>i<length xs. in_arrival_order at xs ! p = xs ! i
           \<and> (\<forall>j<length xs. at j < at i \<longrightarrow> (\<exists>q<p. in_arrival_order at xs ! q = xs ! j))"
proof -
  let ?k = "\<lambda>(i, x). at i"
  let ?L = "sort_key ?k (enumerate 0 xs)"
  have len: "length ?L = length xs" by simp
  have mem: "\<And>q. q < length xs \<Longrightarrow> fst (?L ! q) < length xs \<and> snd (?L ! q) = xs ! fst (?L ! q)"
  proof -
    fix q assume "q < length xs"
    then have "?L ! q \<in> set ?L" by (intro nth_mem) simp
    then have "?L ! q \<in> set (enumerate 0 xs)" by (simp only: set_sort)
    then show "fst (?L ! q) < length xs \<and> snd (?L ! q) = xs ! fst (?L ! q)"
      by (simp add: in_set_enumerate_eq)
  qed
  have nth: "\<And>q. q < length xs \<Longrightarrow> in_arrival_order at xs ! q = snd (?L ! q)"
    by (simp add: in_arrival_order_def)
  let ?i = "fst (?L ! p)"
  have "\<forall>j<length xs. at j < at ?i \<longrightarrow> (\<exists>q<p. in_arrival_order at xs ! q = xs ! j)"
  proof (intro allI impI)
    fix j assume j: "j < length xs" and lt: "at j < at ?i"
    have "(j, xs ! j) \<in> set (enumerate 0 xs)"
      using j by (simp add: in_set_enumerate_eq)
    then have "(j, xs ! j) \<in> set ?L" by simp
    then obtain q where q: "q < length ?L" "?L ! q = (j, xs ! j)"
      unfolding in_set_conv_nth by blast
    have "q < p"
    proof (rule ccontr)
      assume "\<not> q < p"
      then have "p \<le> q" by simp
      have "sorted (map ?k ?L)" by (rule sorted_sort_key)
      then have "map ?k ?L ! p \<le> map ?k ?L ! q"
        using \<open>p \<le> q\<close> q(1) by (simp add: sorted_iff_nth_mono)
      then have "at ?i \<le> at j"
        using q assms by (simp add: case_prod_beta)
      with lt show False by simp
    qed
    moreover have "in_arrival_order at xs ! q = xs ! j"
      using q by (simp add: nth)
    ultimately show "\<exists>q<p. in_arrival_order at xs ! q = xs ! j" by blast
  qed
  with mem [OF assms] nth [OF assms] show ?thesis by auto
qed

lemma set_in_arrival_order [simp]: "set (in_arrival_order at xs) = set xs"
proof -
  have "set (in_arrival_order at xs) = snd ` set (enumerate 0 xs)"
    by (simp add: in_arrival_order_def)
  also have "\<dots> = set (map snd (enumerate 0 xs))" by (simp only: set_map)
  also have "\<dots> = set xs" by (simp only: map_snd_enumerate)
  finally show ?thesis .
qed

lemma length_in_arrival_order [simp]: "length (in_arrival_order at xs) = length xs"
  by (simp add: in_arrival_order_def)


lemma getTrialsAllowed_discovered_case:
  "getTrialsAllowed (Some cfg) (discovered_case E pkg t f) = Inr (GlobalTrialsAllowed cfg)"
  by (simp add: getTrialsAllowed_def discovered_case_def)

text \<open>
  C4: \<open>tryPackageTest\<close> runs the group once (one command, trials-done advanced by one).
  If that run passes, it reports success. If it fails and extraction yields one or more
  names, it returns a report: one retry loop per name, in the order of the names, each on
  a new target with that name and trials-done 1; the value sent is success exactly when
  every loop delivers success; otherwise it is the error \<open>FAIL name\<close> of a discovered
  case that delivered it, and every case whose report arrived before that one delivered
  success.
\<close>

theorem group_reconciliation:
  assumes run: "runTest E (exec W) t [] = ((out, e), t', tr')"
  shows "TrialsDone t' = TrialsDone t + 1 \<and> tr' = [go_test E t]
    \<and> (e = None \<longrightarrow>
         tryPackageTest E (Some cfg) pkg W t
           = Inr \<lparr>target = t', executed = [go_test E t], discovered = [], sent = None\<rparr>)
    \<and> (e \<noteq> None \<and> grepFailures out = Inr fails \<and> fails \<noteq> [] \<longrightarrow>
         (\<exists>rep. tryPackageTest E (Some cfg) pkg W t = Inr rep
            \<and> target rep = t' \<and> executed rep = [go_test E t]
            \<and> length (discovered rep) = length fails
            \<and> (\<forall>i<length fails.
                  discovered rep ! i
                    = tryTestCase E (Some cfg) (child_exec W i)
                        \<lparr>Name = fails ! i, TrialsDone = 1, TrialsAllowed = 0,
                         AnyFailing = False, Cases = [],
                         Pkg = pkg (getNonRecursivePackageName E (Pkg t))\<rparr> []
                  \<and> (\<exists>tc trc ec. discovered rep ! i = Inr (tc, trc, ec)))
            \<and> (sent rep = None
                 \<longleftrightarrow> (\<forall>i<length fails. delivered (discovered rep ! i) = Inr None))
            \<and> (sent rep \<noteq> None \<longrightarrow>
                 (\<exists>i<length fails.
                    sent rep = Some (''FAIL '' @ fails ! i)
                    \<and> delivered (discovered rep ! i) = Inr (sent rep)
                    \<and> (\<forall>j<length fails. arrival W j < arrival W i \<longrightarrow>
                          delivered (discovered rep ! j) = Inr None)))))"
proof -
  from run have t': "t' = t\<lparr>TrialsDone := TrialsDone t + 1\<rparr>" and tr': "tr' = [go_test E t]"
    by (simp_all add: runTest_eq)
  have pass: "tryPackageTest E (Some cfg) pkg W t
           = Inr \<lparr>target = t', executed = [go_test E t], discovered = [], sent = None\<rparr>"
    if "e = None"
    using that run tr' by (simp add: tryPackageTest_def)
  have fail: "\<exists>rep. tryPackageTest E (Some cfg) pkg W t = Inr rep
            \<and> target rep = t' \<and> executed rep = [go_test E t]
            \<and> length (discovered rep) = length fails
            \<and> (\<forall>i<length fails.
                  discovered rep ! i
                    = tryTestCase E (Some cfg) (child_exec W i)
                        \<lparr>Name = fails ! i, TrialsDone = 1, TrialsAllowed = 0,
                         AnyFailing = False, Cases = [],
                         Pkg = pkg (getNonRecursivePackageName E (Pkg t))\<rparr> []
                  \<and> (\<exists>tc trc ec. discovered rep ! i = Inr (tc, trc, ec)))
            \<and> (sent rep = None
                 \<longleftrightarrow> (\<forall>i<length fails. delivered (discovered rep ! i) = Inr None))
            \<and> (sent rep \<noteq> None \<longrightarrow>
                 (\<exists>i<length fails.
                    sent rep = Some (''FAIL '' @ fails ! i)
                    \<and> delivered (discovered rep ! i) = Inr (sent rep)
                    \<and> (\<forall>j<length fails. arrival W j < arrival W i \<longrightarrow>
                          delivered (discovered rep ! j) = Inr None)))"
    if e: "e \<noteq> None" and g: "grepFailures out = Inr fails" and ne: "fails \<noteq> []"
  proof -
    define loops where "loops = map (\<lambda>(i, f). tryTestCase E (Some cfg) (child_exec W i) f [])
                                  (enumerate 0 (map (discovered_case E pkg t') fails))"
    define ds where "ds = map delivered loops"
    define pc where "pc = in_arrival_order (arrival W) ds"
    have len: "length loops = length fails" "length ds = length fails" "length pc = length fails"
      by (simp_all add: loops_def ds_def pc_def)
    have nth_loops: "loops ! i = tryTestCase E (Some cfg) (child_exec W i)
                                   (discovered_case E pkg t' (fails ! i)) []"
      if "i < length fails" for i
      using that by (simp add: loops_def nth_enumerate_eq)
    have child: "\<exists>tc trc ec. loops ! i = Inr (tc, trc, ec)
                   \<and> (ec \<noteq> None \<longrightarrow> ec = Some (''FAIL '' @ fails ! i))"
      if "i < length fails" for i
      using tryTestCase_returns [where config = "Some cfg"
              and t = "discovered_case E pkg t' (fails ! i)" and E = E
              and ex = "child_exec W i" and tr = "[]",
              OF getTrialsAllowed_discovered_case]
        nth_loops [OF that]
      by (simp add: discovered_case_def)
    have nth_ds: "\<exists>ec. ds ! i = Inr ec \<and> (ec \<noteq> None \<longrightarrow> ec = Some (''FAIL '' @ fails ! i))"
      if "i < length fails" for i
      using child [OF that] that len by (auto simp: ds_def delivered_def)
    have "\<forall>r\<in>set ds. \<exists>ec. r = Inr ec"
    proof
      fix r assume "r \<in> set ds"
      then obtain i where "i < length ds" "ds ! i = r"
        unfolding in_set_conv_nth by blast
      with nth_ds [of i] len(2) show "\<exists>ec. r = Inr ec" by auto
    qed
    then have "\<forall>r\<in>set pc. \<exists>ec. r = Inr ec"
      by (simp add: pc_def)
    from receive_values [OF this] obtain e2 where e2: "receive pc = Inr e2"
      "e2 = None \<longleftrightarrow> (\<forall>r\<in>set pc. r = Inr None)"
      "e2 \<noteq> None \<longrightarrow> (\<exists>p<length pc. pc ! p = Inr e2 \<and> (\<forall>q<p. pc ! q = Inr None))"
      by blast
    define rep where "rep = \<lparr>target = t', executed = tr', discovered = loops, sent = e2\<rparr>"
    have sel: "target rep = t'" "executed rep = [go_test E t]" "discovered rep = loops"
      "sent rep = e2"
      by (simp_all add: rep_def tr')
    have res: "tryPackageTest E (Some cfg) pkg W t = Inr rep"
      using e g ne run e2(1)
      by (auto simp: tryPackageTest_def Let_def loops_def ds_def pc_def rep_def)
    have iff: "e2 = None \<longleftrightarrow> (\<forall>i<length fails. delivered (loops ! i) = Inr None)"
    proof -
      have "(\<forall>r\<in>set pc. r = Inr None) \<longleftrightarrow> (\<forall>r\<in>set ds. r = Inr None)"
        by (simp add: pc_def)
      also have "\<dots> \<longleftrightarrow> (\<forall>i<length ds. ds ! i = Inr None)"
        by (simp add: all_set_conv_all_nth)
      also have "\<dots> \<longleftrightarrow> (\<forall>i<length fails. delivered (loops ! i) = Inr None)"
        using len by (simp add: ds_def)
      finally show ?thesis using e2(2) by simp
    qed
    have first: "\<exists>i<length fails.
                    e2 = Some (''FAIL '' @ fails ! i)
                    \<and> delivered (loops ! i) = Inr e2
                    \<and> (\<forall>j<length fails. arrival W j < arrival W i \<longrightarrow>
                          delivered (loops ! j) = Inr None)"
      if "e2 \<noteq> None"
    proof -
      from that e2(3) obtain p where p: "p < length pc" "pc ! p = Inr e2"
        "\<forall>q<p. pc ! q = Inr None"
        by blast
      from p(1) have "p < length ds" using len by simp
      from arrival_earlier [OF this, of "arrival W"]
      obtain i where i: "i < length ds" "pc ! p = ds ! i"
        "\<forall>j<length ds. arrival W j < arrival W i \<longrightarrow> (\<exists>q<p. pc ! q = ds ! j)"
        unfolding pc_def by blast
      from i(1) have il: "i < length fails" using len by simp
      from nth_ds [OF il] i(2) p(2) that have msg: "e2 = Some (''FAIL '' @ fails ! i)"
        by auto
      have di: "delivered (loops ! i) = Inr e2"
        using i(2) p(2) il len by (simp add: ds_def)
      have "\<forall>j<length fails. arrival W j < arrival W i \<longrightarrow> delivered (loops ! j) = Inr None"
      proof (intro allI impI)
        fix j assume j: "j < length fails" and lt: "arrival W j < arrival W i"
        with i(3) len obtain q where "q < p" "pc ! q = ds ! j" by auto
        with p(3) have "ds ! j = Inr None" by auto
        with j len show "delivered (loops ! j) = Inr None" by (simp add: ds_def)
      qed
      with il msg di show ?thesis by blast
    qed
    have each: "\<forall>i<length fails.
                  loops ! i
                    = tryTestCase E (Some cfg) (child_exec W i)
                        \<lparr>Name = fails ! i, TrialsDone = 1, TrialsAllowed = 0,
                         AnyFailing = False, Cases = [],
                         Pkg = pkg (getNonRecursivePackageName E (Pkg t))\<rparr> []
                  \<and> (\<exists>tc trc ec. loops ! i = Inr (tc, trc, ec))"
    proof (intro allI impI)
      fix i assume i: "i < length fails"
      from child [OF i] obtain tc trc ec where r: "loops ! i = Inr (tc, trc, ec)"
        by blast
      have "loops ! i
              = tryTestCase E (Some cfg) (child_exec W i)
                  \<lparr>Name = fails ! i, TrialsDone = 1, TrialsAllowed = 0,
                   AnyFailing = False, Cases = [],
                   Pkg = pkg (getNonRecursivePackageName E (Pkg t))\<rparr> []"
        using nth_loops [OF i] t' by (simp add: discovered_case_def)
      with r show "loops ! i
              = tryTestCase E (Some cfg) (child_exec W i)
                  \<lparr>Name = fails ! i, TrialsDone = 1, TrialsAllowed = 0,
                   AnyFailing = False, Cases = [],
                   Pkg = pkg (getNonRecursivePackageName E (Pkg t))\<rparr> []
            \<and> (\<exists>tc trc ec. loops ! i = Inr (tc, trc, ec))"
        by blast
    qed
    have first': "e2 \<noteq> None \<longrightarrow> (\<exists>i<length fails.
                    e2 = Some (''FAIL '' @ fails ! i)
                    \<and> delivered (loops ! i) = Inr e2
                    \<and> (\<forall>j<length fails. arrival W j < arrival W i \<longrightarrow>
                          delivered (loops ! j) = Inr None))"
      using first by blast
    show ?thesis
      apply (rule exI [of _ rep])
      apply (simp only: sel)
      apply (intro conjI)
            apply (rule res)
           apply (rule refl)
          apply (rule refl)
         apply (rule len(1))
        apply (rule each)
       apply (rule iff)
      apply (rule first')
      done
  qed
  from t' tr' pass fail show ?thesis
    by (simp only: simp_thms) (use t' in auto)
qed


theorem group_reconciliation_witness:
  "tryPackageTest linux (Some (example_config 3)) id passing_world util_target
     = Inr \<lparr>target = util_target\<lparr>TrialsDone := 1\<rparr>,
            executed = [go_test linux util_target], discovered = [], sent = None\<rparr>
   \<and> grepFailures two_failures = Inr [''TestAlpha'', ''TestBeta'']
   \<and> (\<exists>rep. tryPackageTest linux (Some (example_config 3)) id reconcile_world util_target
               = Inr rep
            \<and> executed rep = [go_test linux util_target]
            \<and> length (discovered rep) = 2
            \<and> delivered (discovered rep ! 0) = Inr None
            \<and> sent rep = Some ''FAIL TestBeta'')"
proof -
  have td: "TrialsDone util_target = 0"
    by (simp add: util_target_def)
  have p: "runTest linux (exec passing_world) util_target []
             = ((''ok'', None), util_target\<lparr>TrialsDone := 1\<rparr>, [go_test linux util_target])"
    by (simp add: runTest_eq passing_world_def always_pass_def td)
  have r: "runTest linux (exec reconcile_world) util_target []
             = ((two_failures, Some ''exit status 1''), util_target\<lparr>TrialsDone := 1\<rparr>,
                [go_test linux util_target])"
    by (simp add: runTest_eq reconcile_world_def td)
  have g: "grepFailures two_failures = Inr [''TestAlpha'', ''TestBeta'']"
    by (simp add: two_failures_def grep_eval)
  have c0: "delivered (tryTestCase linux (Some (example_config 3)) (child_exec reconcile_world 0)
              \<lparr>Name = [''TestAlpha'', ''TestBeta''] ! 0, TrialsDone = 1, TrialsAllowed = 0,
               AnyFailing = False, Cases = [],
               Pkg = id (getNonRecursivePackageName linux (Pkg util_target))\<rparr> []) = Inr None"
    by (simp add: run_eval example_eval reconcile_world_def delivered_def)
  have c1: "delivered (tryTestCase linux (Some (example_config 3)) (child_exec reconcile_world 1)
              \<lparr>Name = [''TestAlpha'', ''TestBeta''] ! 1, TrialsDone = 1, TrialsAllowed = 0,
               AnyFailing = False, Cases = [],
               Pkg = id (getNonRecursivePackageName linux (Pkg util_target))\<rparr> [])
            = Inr (Some ''FAIL TestBeta'')"
    by (simp add: run_eval example_eval reconcile_world_def delivered_def)
  from group_reconciliation [OF p, of "example_config 3" id "[]"]
  have pass: "tryPackageTest linux (Some (example_config 3)) id passing_world util_target
     = Inr \<lparr>target = util_target\<lparr>TrialsDone := 1\<rparr>,
            executed = [go_test linux util_target], discovered = [], sent = None\<rparr>"
    by simp
  have h: "Some ''exit status 1'' \<noteq> None
           \<and> grepFailures two_failures = Inr [''TestAlpha'', ''TestBeta'']
           \<and> [''TestAlpha'', ''TestBeta''] \<noteq> []"
    using g by simp
  note inst = group_reconciliation [OF r, of "example_config 3" id "[''TestAlpha'', ''TestBeta'']",
      THEN conjunct2, THEN conjunct2, THEN conjunct2, THEN mp, OF h]
  from inst obtain rep where rep:
    "tryPackageTest linux (Some (example_config 3)) id reconcile_world util_target = Inr rep
     \<and> target rep = util_target\<lparr>TrialsDone := 1\<rparr> \<and> executed rep = [go_test linux util_target]
     \<and> length (discovered rep) = length [''TestAlpha'', ''TestBeta'']
     \<and> (\<forall>i<length [''TestAlpha'', ''TestBeta''].
          discovered rep ! i
            = tryTestCase linux (Some (example_config 3)) (child_exec reconcile_world i)
                \<lparr>Name = [''TestAlpha'', ''TestBeta''] ! i, TrialsDone = 1, TrialsAllowed = 0,
                 AnyFailing = False, Cases = [],
                 Pkg = id (getNonRecursivePackageName linux (Pkg util_target))\<rparr> []
          \<and> (\<exists>tc trc ec. discovered rep ! i = Inr (tc, trc, ec)))
     \<and> (sent rep = None
          \<longleftrightarrow> (\<forall>i<length [''TestAlpha'', ''TestBeta''].
                 delivered (discovered rep ! i) = Inr None))
     \<and> (sent rep \<noteq> None \<longrightarrow>
          (\<exists>i<length [''TestAlpha'', ''TestBeta''].
             sent rep = Some (''FAIL '' @ [''TestAlpha'', ''TestBeta''] ! i)
             \<and> delivered (discovered rep ! i) = Inr (sent rep)
             \<and> (\<forall>j<length [''TestAlpha'', ''TestBeta''].
                   arrival reconcile_world j < arrival reconcile_world i \<longrightarrow>
                   delivered (discovered rep ! j) = Inr None)))"
    by (rule exE)
  note res = rep [THEN conjunct1]
  note exe = rep [THEN conjunct2, THEN conjunct2, THEN conjunct1]
  note len = rep [THEN conjunct2, THEN conjunct2, THEN conjunct2, THEN conjunct1]
  note nth = rep [THEN conjunct2, THEN conjunct2, THEN conjunct2, THEN conjunct2,
      THEN conjunct1, rule_format, THEN conjunct1]
  note iff = rep [THEN conjunct2, THEN conjunct2, THEN conjunct2, THEN conjunct2,
      THEN conjunct2, THEN conjunct1]
  note fst = rep [THEN conjunct2, THEN conjunct2, THEN conjunct2, THEN conjunct2,
      THEN conjunct2, THEN conjunct2, THEN mp]
  have d0: "delivered (discovered rep ! 0) = Inr None"
    using nth [of 0] c0 by simp
  have d1: "delivered (discovered rep ! 1) = Inr (Some ''FAIL TestBeta'')"
    using nth [of 1] c1 by simp
  have "\<not> (\<forall>i<length [''TestAlpha'', ''TestBeta'']. delivered (discovered rep ! i) = Inr None)"
  proof
    assume "\<forall>i<length [''TestAlpha'', ''TestBeta'']. delivered (discovered rep ! i) = Inr None"
    then have "delivered (discovered rep ! 1) = Inr None" by simp
    with d1 show False by simp
  qed
  with iff have ne: "sent rep \<noteq> None" by simp
  from fst [OF ne] obtain i where i: "i < length [''TestAlpha'', ''TestBeta'']"
    "sent rep = Some (''FAIL '' @ [''TestAlpha'', ''TestBeta''] ! i)"
    "delivered (discovered rep ! i) = Inr (sent rep)"
    by (elim exE conjE)
  have "i \<noteq> 0"
    using i(3) d0 ne by (intro notI) simp
  with i(1) have "i = 1" by simp
  with i(2) have s: "sent rep = Some ''FAIL TestBeta''" by simp
  have l: "length (discovered rep) = 2" using len by simp
  from res exe l d0 s
  have "\<exists>rep. tryPackageTest linux (Some (example_config 3)) id reconcile_world util_target
               = Inr rep
            \<and> executed rep = [go_test linux util_target]
            \<and> length (discovered rep) = 2
            \<and> delivered (discovered rep ! 0) = Inr None
            \<and> sent rep = Some ''FAIL TestBeta''"
    by (intro exI [of _ rep] conjI)
  with pass g show ?thesis by (intro conjI)
qed


subsection \<open>Failure extraction\<close>

lemma Split_nonempty: "Split s c \<noteq> []"
  by (induction s) (auto split: list.splits)

lemma hd_Split: "hd (Split s c) = takeWhile (\<lambda>x. x \<noteq> c) s"
  by (induction s) (auto split: list.splits simp: Split_nonempty)

lemma Split_first:
  "c \<notin> set a \<Longrightarrow> Split (a @ c # b) c = a # Split b c"
  by (induction a) auto

lemma Split_length: "c \<in> set s \<Longrightarrow> 2 \<le> length (Split s c)"
proof -
  assume "c \<in> set s"
  then obtain a b where "s = a @ c # b" "c \<notin> set a"
    by (auto dest: split_list_first)
  then show ?thesis
    using Split_nonempty [of b c] by (cases "Split b c") (auto simp: Split_first)
qed

lemma Contains_marker_colon: "Contains text ''--- FAIL:'' \<Longrightarrow> CHR '':'' \<in> set text"
  by (auto simp: Contains_sublist sublist_def)

lemma testname_marker:
  assumes "Contains text ''--- FAIL:''"
  shows "testname text = Inr (second_field text)"
proof -
  have "2 \<le> length (Split text CHR '':'')"
    using assms by (intro Split_length Contains_marker_colon)
  moreover have "Split f CHR ''('' ! 0 = takeWhile (\<lambda>c. c \<noteq> CHR ''('') f" for f
    using hd_Split [of f "CHR ''(''"] Split_nonempty [of f "CHR ''(''"]
    by (simp add: hd_conv_nth)
  moreover have "0 < length (Split f CHR ''('')" for f
    using Split_nonempty [of f "CHR ''(''"] by simp
  ultimately show ?thesis
    by (simp add: testname_def index_def second_field_def Let_def)
qed

lemma grepFailures_loop_lines:
  assumes "\<forall>l\<in>set (text_lines data). length l < MaxScanTokenSize"
  shows "grepFailures_loop data fails
           = Inr (fails @ map second_field
                    (filter (\<lambda>l. Contains l ''--- FAIL:'') (map dropCR (text_lines data))))"
  using assms
proof (induction data arbitrary: fails rule: text_lines.induct)
  case (1 data)
  show ?case
  proof (cases "data = []")
    case True
    then show ?thesis
      by (simp add: grepFailures_loop.simps Scan_def text_lines.simps)
  next
    case False
    define raw where "raw = takeWhile (\<lambda>c. \<not> line_end c) data"
    define rest where "rest = drop (Suc (length raw)) data"
    have tl: "text_lines data = raw # text_lines rest"
      using False by (subst text_lines.simps) (simp add: raw_def rest_def Let_def)
    from "1.prems" tl have short: "length raw < MaxScanTokenSize"
      and rest_short: "\<forall>l\<in>set (text_lines rest). length l < MaxScanTokenSize"
      by simp_all
    have scan: "Scan data = Token (dropCR raw) rest"
      using False short by (simp add: Scan_def raw_def rest_def Let_def)
    have IH: "grepFailures_loop rest fs
           = Inr (fs @ map second_field
                    (filter (\<lambda>l. Contains l ''--- FAIL:'') (map dropCR (text_lines rest))))" for fs
      using "1.IH" [OF False raw_def, of fs] rest_short
      by (simp add: rest_def raw_def)
    show ?thesis
      by (subst grepFailures_loop.simps)
         (simp add: scan IH tl testname_marker)
  qed
qed

lemma prefix_nth: "prefix xs ys \<Longrightarrow> i < length xs \<Longrightarrow> ys ! i = xs ! i"
  by (auto simp: prefix_def nth_append)

lemma after_marker_first:
  "c \<notin> set (pre @ m0) \<Longrightarrow> after_marker (pre @ m0 @ c # rest) (m0 @ [c]) = rest"
proof (induction pre)
  case Nil
  then show ?case by (cases m0) simp_all
next
  case (Cons x pre)
  have "\<not> prefix (m0 @ [c]) (x # pre @ m0 @ c # rest)"
  proof
    assume "prefix (m0 @ [c]) (x # pre @ m0 @ c # rest)"
    from prefix_nth [OF this, of "length m0"]
    have "(x # pre @ m0 @ c # rest) ! length m0 = c" by simp
    moreover have "(x # pre @ m0 @ c # rest) ! length m0 = (x # pre @ m0) ! length m0"
      using nth_append [of "x # pre @ m0" "c # rest" "length m0"] by simp
    moreover have "(x # pre @ m0) ! length m0 \<in> set (x # pre @ m0)"
      by (intro nth_mem) simp
    ultimately show False using Cons.prems by auto
  qed
  with Cons show ?case by simp
qed

lemma before_duration_plain:
  assumes "CHR ''('' \<in> set rest \<longrightarrow>
             CHR ''('' \<notin> set (drop (Suc (length (takeWhile (\<lambda>c. c \<noteq> CHR ''('') rest))) rest)
             \<and> drop (Suc (length (takeWhile (\<lambda>c. c \<noteq> CHR ''('') rest))) rest \<noteq> []
             \<and> last (drop (Suc (length (takeWhile (\<lambda>c. c \<noteq> CHR ''('') rest))) rest) = CHR '')''
             \<and> is_duration
                 (butlast (drop (Suc (length (takeWhile (\<lambda>c. c \<noteq> CHR ''('') rest))) rest))"
  shows "before_duration rest = takeWhile (\<lambda>c. c \<noteq> CHR ''('') rest"
proof (cases "CHR ''('' \<in> set rest")
  case False
  then have tw: "takeWhile (\<lambda>c. c \<noteq> CHR ''('') rest = rest"
    by (auto simp: takeWhile_eq_all_conv)
  show ?thesis
    unfolding tw using False by (simp add: before_duration_def Let_def)
next
  case True
  define a where "a = takeWhile (\<lambda>c. c \<noteq> CHR ''('') rest"
  define d where "d = drop (Suc (length a)) rest"
  from True assms have d: "CHR ''('' \<notin> set d" "d \<noteq> []" "last d = CHR '')''"
    "is_duration (butlast d)"
    by (simp_all add: a_def d_def)
  have a: "CHR ''('' \<notin> set a"
    by (auto simp: a_def dest: set_takeWhileD)
  define w where "w = dropWhile (\<lambda>c. c \<noteq> CHR ''('') rest"
  have aw: "rest = a @ w" by (simp add: a_def w_def)
  have "w \<noteq> []" using True by (simp add: w_def)
  then have "hd w = CHR ''(''"
    using hd_dropWhile [of "\<lambda>c. c \<noteq> CHR ''(''" rest] by (simp add: w_def)
  with \<open>w \<noteq> []\<close> obtain w' where w': "w = CHR ''('' # w'" by (cases w) auto
  have "d = w'" unfolding d_def by (subst aw) (simp add: w')
  with aw w' have rest: "rest = a @ CHR ''('' # d" by simp
  have r: "rev rest = rev d @ CHR ''('' # rev a"
    by (subst rest) simp
  have inner: "takeWhile (\<lambda>c. c \<noteq> CHR ''('') (rev rest) = rev d"
  proof -
    have "takeWhile (\<lambda>c. c \<noteq> CHR ''('') (rev d @ CHR ''('' # rev a)
            = rev d @ takeWhile (\<lambda>c. c \<noteq> CHR ''('') (CHR ''('' # rev a)"
      using d(1) by (intro takeWhile_append2) auto
    then show ?thesis by (simp add: r)
  qed
  have hd: "hd (rev d) = CHR '')''"
    using d(2,3) by (simp add: hd_rev)
  have tl: "rev (tl (rev d)) = butlast d"
    by (simp add: butlast_rev [symmetric])
  have "before_duration rest = rev (drop (Suc (length (rev d))) (rev rest))"
    using True d(2,4) hd tl by (simp add: before_duration_def Let_def inner)
  also have "\<dots> = a" by (simp add: r)
  finally show ?thesis by (simp add: a_def)
qed

lemma plain_fail_line_fields:
  assumes "plain_fail_line l"
  shows "second_field l = name_field l"
proof -
  define f where "f = takeWhile (\<lambda>c. c \<noteq> CHR '':'') l"
  define rest where "rest = drop (Suc (length f)) l"
  from assms have wf: "suffix ''--- FAIL'' f \<and> length f < length l
      \<and> CHR '':'' \<notin> set (takeWhile (\<lambda>c. c \<noteq> CHR ''('') rest)
      \<and> (CHR ''('' \<in> set rest \<longrightarrow>
             CHR ''('' \<notin> set (drop (Suc (length (takeWhile (\<lambda>c. c \<noteq> CHR ''('') rest))) rest)
             \<and> drop (Suc (length (takeWhile (\<lambda>c. c \<noteq> CHR ''('') rest))) rest \<noteq> []
             \<and> last (drop (Suc (length (takeWhile (\<lambda>c. c \<noteq> CHR ''('') rest))) rest) = CHR '')''
             \<and> is_duration
                 (butlast (drop (Suc (length (takeWhile (\<lambda>c. c \<noteq> CHR ''('') rest))) rest)))"
    unfolding plain_fail_line_def Let_def f_def rest_def .
  note suf = wf [THEN conjunct1]
  note len = wf [THEN conjunct2, THEN conjunct1]
  note nocolon = wf [THEN conjunct2, THEN conjunct2, THEN conjunct1]
  note dur = wf [THEN conjunct2, THEN conjunct2, THEN conjunct2]
  have fcolon: "CHR '':'' \<notin> set f"
    by (auto simp: f_def dest: set_takeWhileD)
  define d where "d = dropWhile (\<lambda>c. c \<noteq> CHR '':'') l"
  have fd: "l = f @ d"
    by (simp add: f_def d_def)
  have "length l = length f + length d"
    by (subst fd) simp
  with len have dne: "d \<noteq> []" by auto
  then have "hd d = CHR '':''"
    using hd_dropWhile [of "\<lambda>c. c \<noteq> CHR '':''" l] by (simp add: d_def)
  with dne obtain d' where d': "d = CHR '':'' # d'"
    by (cases d) auto
  have "rest = d'"
    unfolding rest_def by (subst fd) (simp add: d')
  with fd d' have l: "l = f @ CHR '':'' # rest" by simp
  from suf obtain pre where pre: "f = pre @ ''--- FAIL''"
    by (auto simp: suffix_def)
  have split: "Split l CHR '':'' ! Suc 0 = takeWhile (\<lambda>c. c \<noteq> CHR '':'') rest"
    using Split_first [OF fcolon, of rest] hd_Split [of rest "CHR '':''"]
      Split_nonempty [of rest "CHR '':''"]
    by (subst l) (simp add: hd_conv_nth)
  have tw: "takeWhile (\<lambda>c. c \<noteq> CHR ''('') (takeWhile (\<lambda>c. c \<noteq> CHR '':'') rest)
              = takeWhile (\<lambda>c. c \<noteq> CHR ''('') rest"
    using nocolon
  proof (induction rest)
    case Nil
    show ?case by simp
  next
    case (Cons a rest)
    then show ?case by (cases "a = CHR ''(''") auto
  qed
  have am: "after_marker l ''--- FAIL:'' = rest"
    using after_marker_first [of "CHR '':''" pre "''--- FAIL''" rest] fcolon
    by (subst l) (simp add: pre)
  show ?thesis
    by (simp add: second_field_def name_field_def split tw am before_duration_plain [OF dur])
qed

text \<open>
  C8, amended: on an output whose lines are all shorter than the scanner's buffer of
  64 KiB, and in which every line containing the marker has the marker's colon as its
  first colon, no colon in the name field and no parenthesis after the marker other than
  the one opening the duration that ends the line, extraction returns exactly the names
  that follow the marker, before the parenthesized duration, in the lines containing it,
  in order of appearance and with duplicates; lines without the marker are ignored, and
  with no marker line the result is empty.
\<close>

theorem grepFailures_names:
  assumes "\<forall>l\<in>set (text_lines output). length l < MaxScanTokenSize"
    and "\<forall>l\<in>set (map dropCR (text_lines output)).
           Contains l ''--- FAIL:'' \<longrightarrow> plain_fail_line l"
  shows "grepFailures output = Inr (extract_spec output)"
proof -
  have "map second_field (filter (\<lambda>l. Contains l ''--- FAIL:'') (map dropCR (text_lines output)))
        = map name_field (filter (\<lambda>l. Contains l ''--- FAIL:'') (map dropCR (text_lines output)))"
    using assms(2) by (intro map_cong refl plain_fail_line_fields) auto
  then show ?thesis
    using grepFailures_loop_lines [OF assms(1), of "[]"]
    by (simp add: grepFailures_def extract_spec_def)
qed

text \<open>A first line too long for the scanner ends the process.\<close>

lemma grepFailures_long_line:
  assumes "MaxScanTokenSize \<le> length (takeWhile (\<lambda>c. \<not> line_end c) data)"
  shows "grepFailures data = Inl (Fatal ''bufio.Scanner: token too long'')"
proof -
  from assms have "data \<noteq> []" by (auto simp: MaxScanTokenSize_def)
  with assms have "Scan data = ScanErr ''bufio.Scanner: token too long''"
    by (simp add: Scan_def Let_def)
  then show ?thesis
    by (simp add: grepFailures_def grepFailures_loop.simps)
qed

lemmas spec_eval = extract_spec_def text_lines.simps line_end_def dropCR_def name_field_def
  Trim_def plain_fail_line_def before_duration_def is_duration_def

text \<open>
  C8, as stated, fails, in four ways. The code takes the second colon-separated field of
  the line, not the field that follows the marker: on a line with a colon before the
  marker it returns a piece of that prefix, and a name that contains a colon is cut at
  the colon. It cuts that field at its first parenthesis, so a name that contains a
  parenthesis is cut there and not at the duration. And on a line of 64 KiB, here one
  without the marker, it ends the process instead of returning the empty sequence.
\<close>

theorem second_field_counterexample:
  "grepFailures (''2018/05/01 10:15:00 --- FAIL: TestAlpha (1.23s)'' @ [CHR 0x0A])
     = Inr [''15'']
   \<and> extract_spec (''2018/05/01 10:15:00 --- FAIL: TestAlpha (1.23s)'' @ [CHR 0x0A])
     = [''TestAlpha'']
   \<and> grepFailures (''--- FAIL: TestParse/host:port (0.00s)'' @ [CHR 0x0A])
     = Inr [''TestParse/host'']
   \<and> extract_spec (''--- FAIL: TestParse/host:port (0.00s)'' @ [CHR 0x0A])
     = [''TestParse/host:port'']
   \<and> grepFailures (''    --- FAIL: TestParse/f(x) (0.00s)'' @ [CHR 0x0A])
     = Inr [''TestParse/f'']
   \<and> extract_spec (''    --- FAIL: TestParse/f(x) (0.00s)'' @ [CHR 0x0A])
     = [''TestParse/f(x)'']
   \<and> grepFailures (replicate 65536 CHR ''a'')
     = Inl (Fatal ''bufio.Scanner: token too long'')
   \<and> extract_spec (replicate 65536 CHR ''a'') = []"
proof -
  have long: "grepFailures (replicate 65536 CHR ''a'')
     = Inl (Fatal ''bufio.Scanner: token too long'')"
    by (rule grepFailures_long_line) (simp add: line_end_def MaxScanTokenSize_def)
  have "\<not> Contains (replicate 65536 CHR ''a'') ''--- FAIL:''"
    using Contains_marker_colon [of "replicate 65536 CHR ''a''"] by auto
  moreover have "text_lines (replicate 65536 CHR ''a'') = [replicate 65536 CHR ''a'']"
    by (subst text_lines.simps) (simp add: line_end_def text_lines.simps)
  moreover have "dropCR (replicate 65536 CHR ''a'') = replicate 65536 CHR ''a''"
    by (simp add: dropCR_def)
  ultimately have spec: "extract_spec (replicate 65536 CHR ''a'') = []"
    by (simp add: extract_spec_def)
  have rest: "grepFailures (''2018/05/01 10:15:00 --- FAIL: TestAlpha (1.23s)'' @ [CHR 0x0A])
     = Inr [''15'']
   \<and> extract_spec (''2018/05/01 10:15:00 --- FAIL: TestAlpha (1.23s)'' @ [CHR 0x0A])
     = [''TestAlpha'']
   \<and> grepFailures (''--- FAIL: TestParse/host:port (0.00s)'' @ [CHR 0x0A])
     = Inr [''TestParse/host'']
   \<and> extract_spec (''--- FAIL: TestParse/host:port (0.00s)'' @ [CHR 0x0A])
     = [''TestParse/host:port'']
   \<and> grepFailures (''    --- FAIL: TestParse/f(x) (0.00s)'' @ [CHR 0x0A])
     = Inr [''TestParse/f'']
   \<and> extract_spec (''    --- FAIL: TestParse/f(x) (0.00s)'' @ [CHR 0x0A])
     = [''TestParse/f(x)'']"
    by (simp add: grep_eval spec_eval)
  from rest long spec show ?thesis by simp
qed

theorem grepFailures_names_witness:
  "grepFailures two_failures = Inr (extract_spec two_failures)
   \<and> extract_spec two_failures = [''TestAlpha'', ''TestBeta'']
   \<and> grepFailures ''ok   pkg/util 0.01s'' = Inr (extract_spec ''ok   pkg/util 0.01s'')
   \<and> extract_spec ''ok   pkg/util 0.01s'' = []"
proof -
  have a: "\<forall>l\<in>set (text_lines two_failures). length l < MaxScanTokenSize"
    by (simp add: two_failures_def text_lines.simps line_end_def MaxScanTokenSize_def)
  have b: "\<forall>l\<in>set (map dropCR (text_lines two_failures)).
             Contains l ''--- FAIL:'' \<longrightarrow> plain_fail_line l"
    by (simp add: two_failures_def spec_eval suffix_def)
  have c: "\<forall>l\<in>set (text_lines ''ok   pkg/util 0.01s''). length l < MaxScanTokenSize"
    by (simp add: text_lines.simps line_end_def MaxScanTokenSize_def)
  have d: "\<forall>l\<in>set (map dropCR (text_lines ''ok   pkg/util 0.01s'')).
             Contains l ''--- FAIL:'' \<longrightarrow> plain_fail_line l"
    by (simp add: spec_eval)
  have e: "extract_spec two_failures = [''TestAlpha'', ''TestBeta'']"
    by (simp add: two_failures_def spec_eval)
  have f: "extract_spec ''ok   pkg/util 0.01s'' = []"
    by (simp add: spec_eval)
  from grepFailures_names [OF a b] grepFailures_names [OF c d] e f show ?thesis
    by (intro conjI)
qed

end
